theory Spec2Isabelle
  imports Complex_Main
begin

section \<open>Data model of \<open>editor-mathfield/utils.ts\<close>\<close>

text \<open>
  The coordinates that the DOM reports (a bounding rectangle, a scroll offset) are finite
  numbers and are modelled as reals.  A number that the code computes may be rounded or
  non-finite: such a number has the type \<open>JsNumber\<close>, and the sums, differences and
  products of \<open>adjustForScrolling\<close> are rounded to double precision (IEEE 754 binary64,
  round to nearest, ties to even).  The minimum and maximum of two numbers, the
  subtraction of the integer right margin in \<open>getNodeBounds\<close> and the quotient of two
  integers at the head of \<open>getRangeBounds\<close> are kept as they are on reals.
  Strings are lists of characters.  \<open>null\<close> and \<open>undefined\<close> are \<open>None\<close>.
\<close>

record Rect =
  top :: real
  bottom :: real
  left :: real
  right :: real

text \<open>
  Modelled from the spec: the types of a branch tag and of an argument are declared
  with the atom class.  A branch tag is a string, or a row and a column for the cells of
  an array; an argument of a command is a string or something else (\<open>null\<close>, a list
  of atoms, ...), of which the source only asks \<open>typeof a.args[0] === 'string'\<close>.
\<close>

datatype Branch = BranchName string | BranchCell int int

datatype Argument = StringArg string | OtherArg

record Style =
  backgroundColor :: "string option"

text \<open>
  Modelled from the spec: the atom class (\<open>core/atom-class\<close>) is not among the source
  files.  An atom has an identifier, a parent reference, a parent-branch tag, a style, a
  tree depth, a mode, and an optional command name with positional arguments.  The
  identifier and the argument list may be absent: the source tests \<open>!atom.id\<close> and
  \<open>a.args &&\<close>.  The parent reference makes the ancestor chain part of the value, so
  the chain is finite and acyclic, as the tree built by the model is.  \<open>treeDepth\<close> is
  a getter of the atom class; here it is the number the getter returns.
\<close>

datatype Atom = Atom
  (atom_id: "string option")
  (parent: "Atom option")
  (parentBranch: "Branch option")
  (command: string)
  (args: "Argument list option")
  (mode: string)
  (treeDepth: int)
  (style: Style)

text \<open>
  A DOM element, with what the source reads of it: \<open>getBoundingClientRect()\<close>,
  \<open>parseInt(getComputedStyle(node).marginRight)\<close>, \<open>scrollLeft\<close>, \<open>offsetWidth\<close>,
  \<open>tagName\<close>, \<open>nodeType\<close>, \<open>dataset.atomId\<close> (the attribute \<open>data-atom-id\<close>),
  \<open>classList\<close> and \<open>children\<close>.
\<close>

datatype Element = Element
  (boundingClientRect: Rect)
  (marginRight: int)
  (scrollLeft: real)
  (offsetWidth: int)
  (tagName: string)
  (nodeType: nat)
  (atomId: "string option")
  (classList: "string list")
  (children: "Element list")

datatype error = TypeError

subsection \<open>Origin validator\<close>

text \<open>
  Modelled from the spec: \<open>OriginValidator\<close> is declared in \<open>public/options\<close>.  The
  validation mode is accept-all (\<open>'none'\<close>), same-origin-only (\<open>'same-origin'\<close>), a
  custom predicate, or an unrecognized value, which rejects.
\<close>

datatype OriginValidator =
  StringValidator string
  | FunctionValidator "string \<Rightarrow> bool"
  | OtherValidator

text \<open>\<open>!window.origin\<close>: the origin is \<open>undefined\<close>, \<open>null\<close> or the empty string.\<close>

definition falsy_string :: "string option \<Rightarrow> bool" where
  "falsy_string s = (case s of None \<Rightarrow> True | Some t \<Rightarrow> t = [])"

definition is_none_validator :: "OriginValidator \<Rightarrow> bool" where
  "is_none_validator v = (case v of StringValidator s \<Rightarrow> s = ''none'' | _ \<Rightarrow> False)"

definition is_same_origin_validator :: "OriginValidator \<Rightarrow> bool" where
  "is_same_origin_validator v =
     (case v of StringValidator s \<Rightarrow> s = ''same-origin'' | _ \<Rightarrow> False)"

text \<open>The first argument is \<open>window.origin\<close>, which the source reads from the global.\<close>

definition validateOrigin :: "string option \<Rightarrow> string \<Rightarrow> OriginValidator \<Rightarrow> bool" where
  "validateOrigin window_origin origin originValidator =
     (if origin = ''*'' \<or> is_none_validator originValidator then True
      else if is_same_origin_validator originValidator
        then falsy_string window_origin \<or> Some origin = window_origin
      else (case originValidator of
              FunctionValidator f \<Rightarrow> f origin
            | _ \<Rightarrow> False))"

subsection \<open>Scroll and scale adjustment\<close>

text \<open>
  A JavaScript number: a finite value, an infinity or \<open>NaN\<close>.  The two zeros of
  binary64 are one value here, \<open>Finite 0\<close>: no operation of this file tells them apart
  (there is no division by a computed zero, and \<open>===\<close> holds between them).
\<close>

datatype JsNumber = Finite real | PosInfinity | NegInfinity | NaN

text \<open>
  Rounding of a real to binary64.  A double is \<open>m * 2 ^ c\<close> with \<open>\<bar>m\<bar> < 2 ^ 53\<close> and
  \<open>- 1074 \<le> c \<le> 971\<close>.  For \<open>x\<close> other than zero, \<open>e\<close> is the exponent of \<open>x\<close>, at least
  that of the subnormal numbers, \<open>q\<close> the distance between neighbouring doubles of that
  exponent, and \<open>x\<close> is rounded to the nearest multiple of \<open>q\<close>, a tie going to
  the even multiple; a result of \<open>2 ^ 1024\<close> or more is an infinity.  The finite
  numbers of the program are the reals that the rounding leaves as they are.
\<close>

definition pow2 :: "int \<Rightarrow> real" where
  "pow2 e = (if 0 \<le> e then 2 ^ nat e else 1 / 2 ^ nat (- e))"

definition roundTiesToEven :: "real \<Rightarrow> int" where
  "roundTiesToEven x =
     (let f = \<lfloor>x\<rfloor>
      in if x - of_int f < 1 / 2 then f
         else if 1 / 2 < x - of_int f then f + 1
         else if even f then f else f + 1)"

definition round64 :: "real \<Rightarrow> JsNumber" where
  "round64 x =
     (if x = 0 then Finite 0
      else
        (let e = max \<lfloor>log 2 \<bar>x\<bar>\<rfloor> (- 1022);
             q = pow2 (e - 52);
             y = of_int (roundTiesToEven (\<bar>x\<bar> / q)) * q
         in if y < pow2 1024 then Finite (sgn x * y)
            else if 0 < x then PosInfinity else NegInfinity))"

text \<open>
  The operators \<open>+\<close>, \<open>-\<close> and \<open>*\<close> on numbers: the exact result, rounded.  \<open>NaN\<close>
  propagates; \<open>Infinity - Infinity\<close> and \<open>0 * Infinity\<close> are \<open>NaN\<close>.
\<close>

fun js_add :: "JsNumber \<Rightarrow> JsNumber \<Rightarrow> JsNumber" where
  "js_add (Finite x) (Finite y) = round64 (x + y)"
| "js_add NaN _ = NaN"
| "js_add _ NaN = NaN"
| "js_add PosInfinity NegInfinity = NaN"
| "js_add NegInfinity PosInfinity = NaN"
| "js_add PosInfinity _ = PosInfinity"
| "js_add _ PosInfinity = PosInfinity"
| "js_add NegInfinity _ = NegInfinity"
| "js_add _ NegInfinity = NegInfinity"

fun js_sub :: "JsNumber \<Rightarrow> JsNumber \<Rightarrow> JsNumber" where
  "js_sub (Finite x) (Finite y) = round64 (x - y)"
| "js_sub NaN _ = NaN"
| "js_sub _ NaN = NaN"
| "js_sub PosInfinity PosInfinity = NaN"
| "js_sub NegInfinity NegInfinity = NaN"
| "js_sub PosInfinity _ = PosInfinity"
| "js_sub NegInfinity _ = NegInfinity"
| "js_sub _ PosInfinity = NegInfinity"
| "js_sub _ NegInfinity = PosInfinity"

fun js_mul :: "JsNumber \<Rightarrow> JsNumber \<Rightarrow> JsNumber" where
  "js_mul (Finite x) (Finite y) = round64 (x * y)"
| "js_mul NaN _ = NaN"
| "js_mul _ NaN = NaN"
| "js_mul (Finite x) PosInfinity =
     (if x = 0 then NaN else if 0 < x then PosInfinity else NegInfinity)"
| "js_mul (Finite x) NegInfinity =
     (if x = 0 then NaN else if 0 < x then NegInfinity else PosInfinity)"
| "js_mul PosInfinity (Finite y) =
     (if y = 0 then NaN else if 0 < y then PosInfinity else NegInfinity)"
| "js_mul NegInfinity (Finite y) =
     (if y = 0 then NaN else if 0 < y then NegInfinity else PosInfinity)"
| "js_mul PosInfinity PosInfinity = PosInfinity"
| "js_mul PosInfinity NegInfinity = NegInfinity"
| "js_mul NegInfinity PosInfinity = NegInfinity"
| "js_mul NegInfinity NegInfinity = PosInfinity"

text \<open>
  \<open>Math.ceil\<close> keeps an infinity and \<open>NaN\<close>; the ceiling of a double is a double.
  \<open>Math.floor\<close> is used on a finite number only.
\<close>

fun Math_ceil :: "JsNumber \<Rightarrow> JsNumber" where
  "Math_ceil (Finite x) = Finite (of_int \<lceil>x\<rceil>)"
| "Math_ceil v = v"

definition Math_floor :: "real \<Rightarrow> int" where
  "Math_floor x = \<lfloor>x\<rfloor>"

text \<open>
  The type \<open>Rect\<close> of the source with fields that are any number: the rectangle that
  \<open>adjustForScrolling\<close> is given and the one it returns.
\<close>

record NumRect =
  num_top :: JsNumber
  num_bottom :: JsNumber
  num_left :: JsNumber
  num_right :: JsNumber

text \<open>
  The first argument is \<open>mathfield.field\<close>, the only part of the mathfield that
  \<open>adjustForScrolling\<close> reads.
\<close>

definition adjustForScrolling :: "Element \<Rightarrow> NumRect option \<Rightarrow> JsNumber \<Rightarrow> NumRect option" where
  "adjustForScrolling fld rect scaleFactor =
     (case rect of
        None \<Rightarrow> None
      | Some rect \<Rightarrow>
          (let fieldRect = boundingClientRect fld;
               w = js_sub (num_right rect) (num_left rect);
               h = js_sub (num_bottom rect) (num_top rect);
               l = Math_ceil (js_add (js_sub (num_left rect) (Finite (left fieldRect)))
                                     (js_mul (Finite (scrollLeft fld)) scaleFactor));
               t = Math_ceil (js_sub (num_top rect) (Finite (top fieldRect)))
           in Some \<lparr>num_top = t, num_bottom = js_add t h, num_left = l, num_right = js_add l w\<rparr>))"

text \<open>
  The quotient of \<open>getRangeBounds\<close>.  Dividing by zero gives an infinity, except that
  \<open>0 / 0\<close> is \<open>NaN\<close>.  Both operands here are integers: \<open>Math.floor\<close> of the rendered
  width, and \<open>offsetWidth\<close>, a DOM \<open>long\<close>.
\<close>

definition js_divide :: "int \<Rightarrow> int \<Rightarrow> JsNumber" where
  "js_divide a b =
     (if b = 0 then (if a = 0 then NaN else if 0 < a then PosInfinity else NegInfinity)
      else Finite (of_int a / of_int b))"

definition isNaN :: "JsNumber \<Rightarrow> bool" where
  "isNaN x = (case x of NaN \<Rightarrow> True | _ \<Rightarrow> False)"

text \<open>
  The scale factor of \<open>getRangeBounds\<close> (steps 1 to 3 of that function): the width of
  \<open>field.getBoundingClientRect()\<close> is \<open>right - left\<close> of the rectangle.
\<close>

definition scaleFactor :: "Element \<Rightarrow> JsNumber" where
  "scaleFactor fld =
     (let offsetWidth = offsetWidth fld;
          actualWidth = Math_floor (right (boundingClientRect fld) - left (boundingClientRect fld));
          scaleFactor = js_divide actualWidth offsetWidth
      in if isNaN scaleFactor then Finite 1 else scaleFactor)"

subsection \<open>Branch key\<close>

text \<open>How JavaScript prints an integer in a template string.\<close>

fun digits :: "nat \<Rightarrow> string" where
  "digits n =
     (if n < 10 then [char_of (48 + n)] else digits (n div 10) @ [char_of (48 + n mod 10)])"

declare digits.simps [simp del]

definition numberToString :: "int \<Rightarrow> string" where
  "numberToString i = (if i < 0 then CHR ''-'' # digits (nat (- i)) else digits (nat i))"

text \<open>
  \<open>atom.parent.id ?? ''\<close>, then the branch tag.  \<open>atom.parentBranch![0]\<close> on an atom
  that has a parent and no branch tag reads a property of \<open>undefined\<close>.
\<close>

definition branchId :: "Atom \<Rightarrow> error + string" where
  "branchId atom =
     (case parent atom of
        None \<Rightarrow> Inr ''root''
      | Some p \<Rightarrow>
          (let result = (case atom_id p of None \<Rightarrow> [] | Some i \<Rightarrow> i)
           in case parentBranch atom of
                Some (BranchName b) \<Rightarrow> Inr (result @ ''-'' @ b)
              | Some (BranchCell row col) \<Rightarrow>
                  Inr (result @ ''-'' @ numberToString row @ ''/'' @ numberToString row)
              | None \<Rightarrow> Inl TypeError))"

subsection \<open>Node bounds\<close>

text \<open>\<open>String.prototype.toUpperCase\<close> on the ASCII letters of a tag name.\<close>

definition toUpperCase_char :: "char \<Rightarrow> char" where
  "toUpperCase_char c =
     (let n = (of_char c :: nat) in if 97 \<le> n \<and> n \<le> 122 then char_of (n - 32) else c)"

definition toUpperCase :: "string \<Rightarrow> string" where
  "toUpperCase s = map toUpperCase_char s"

definition unionRect :: "Rect \<Rightarrow> Rect \<Rightarrow> Rect" where
  "unionRect a b =
     \<lparr>top = min (top a) (top b), bottom = max (bottom a) (bottom b),
      left = min (left a) (left b), right = max (right a) (right b)\<rparr>"

text \<open>
  \<open>getNodeBounds\<close> builds a new \<open>Rect\<close> and folds the qualifying children into it;
  the objects it makes for the children do not leave the function, so it is a function
  from the element to the value of the new object.
\<close>

function getNodeBounds :: "Element \<Rightarrow> Rect" where
  "getNodeBounds node =
     (let bounds = boundingClientRect node;
          result = \<lparr>top = top bounds - 1, bottom = bottom bounds, left = left bounds,
                    right = right bounds - 1 + of_int (marginRight node)\<rparr>
      in if length (children node) = 0 \<or> toUpperCase (tagName node) = ''SVG'' then result
         else foldl (\<lambda>result child.
                 if nodeType child = 1 \<and> atomId child \<noteq> None
                    \<and> ''ML__pstrut'' \<notin> set (classList child)
                 then (let r = getNodeBounds child
                       in result\<lparr>left := min (left result) (left r),
                                  right := max (right result) (right r),
                                  top := min (top result) (top r),
                                  bottom := max (bottom result) (bottom r)\<rparr>)
                 else result)
               result (children node))"
  by pat_completeness auto
termination
proof (relation "measure size")
  fix node child :: Element
  assume "child \<in> set (children node)"
  then have "size child < size node"
    by (cases node) (auto simp: less_Suc_eq_le dest: size_list_estimation')
  then show "(child, node) \<in> measure size" by simp
qed simp

declare getNodeBounds.simps [simp del]

text \<open>
  \<open>field.querySelector('[data-atom-id="ID"]')\<close>: the first descendant of the field, in
  document order, whose attribute \<open>data-atom-id\<close> is \<open>ID\<close>.  Atom identifiers are
  taken to be free of quotes and backslashes, as the ones the model generates are.
\<close>

fun firstSome :: "'a option list \<Rightarrow> 'a option" where
  "firstSome [] = None"
| "firstSome (None # xs) = firstSome xs"
| "firstSome (Some x # xs) = Some x"

function findAtomNode :: "string \<Rightarrow> Element \<Rightarrow> Element option" where
  "findAtomNode i node =
     (if atomId node = Some i then Some node
      else firstSome (map (findAtomNode i) (children node)))"
  by pat_completeness auto
termination
proof (relation "measure (\<lambda>(i, node). size node)")
  fix i :: string and node child :: Element
  assume "child \<in> set (children node)"
  then have "size child < size node"
    by (cases node) (auto simp: less_Suc_eq_le dest: size_list_estimation')
  then show "((i, child), (i, node)) \<in> measure (\<lambda>(i, node). size node)" by simp
qed simp

declare findAtomNode.simps [simp del]

definition querySelector :: "Element \<Rightarrow> string \<Rightarrow> Element option" where
  "querySelector fld i = firstSome (map (findAtomNode i) (children fld))"

subsection \<open>The mathfield and the bounds cache\<close>

text \<open>
  \<open>getAtomBounds\<close> returns the very object that the cache holds, and
  \<open>getRangeBoundingRect\<close> assigns to the fields of the object it was given.  So a
  \<open>Rect\<close> object is a reference into a store: \<open>rects\<close> gives the value of each object
  and \<open>nextRef\<close> is the next unused reference.  The cache
  (\<open>atomBoundsCache?: Map<string, Rect>\<close>) maps identifiers to references.
  \<open>atoms\<close> is the sequence that \<open>model.at\<close> indexes.
\<close>

type_synonym ref = nat

record Mathfield =
  field :: Element
  atoms :: "Atom list"
  atomBoundsCache :: "(string \<rightharpoonup> ref) option"
  rects :: "ref \<Rightarrow> Rect"
  nextRef :: ref

text \<open>
  Modelled from the spec: the model (\<open>mf.model\<close>) is declared outside the source
  files.  \<open>model.at(i)\<close> resolves the atom at an offset and is \<open>undefined\<close> when
  there is none (\<open>getElementInfo\<close> and \<open>getHref\<close> test for it).
\<close>

definition model_at :: "Mathfield \<Rightarrow> int \<Rightarrow> Atom option" where
  "model_at mf i = (if 0 \<le> i \<and> i < int (length (atoms mf)) then Some (atoms mf ! nat i) else None)"

definition newRect :: "Rect \<Rightarrow> Mathfield \<Rightarrow> ref \<times> Mathfield" where
  "newRect v mf = (nextRef mf, mf\<lparr>rects := (rects mf)(nextRef mf := v), nextRef := Suc (nextRef mf)\<rparr>)"

text \<open>
  \<open>mathfield.atomBoundsCache?.get(id) ?? null\<close>; in \<open>getAtomBounds\<close>, \<open>!atom.id\<close>
  holds for an identifier that is absent or empty.
\<close>

definition cache_get :: "Mathfield \<Rightarrow> string \<Rightarrow> ref option" where
  "cache_get mf i = (case atomBoundsCache mf of None \<Rightarrow> None | Some c \<Rightarrow> c i)"

definition getAtomBounds :: "Mathfield \<Rightarrow> Atom \<Rightarrow> ref option \<times> Mathfield" where
  "getAtomBounds mf atom =
     (case atom_id atom of
        None \<Rightarrow> (None, mf)
      | Some i \<Rightarrow>
          if i = [] then (None, mf)
          else
            (case cache_get mf i of
               Some result \<Rightarrow> (Some result, mf)
             | None \<Rightarrow>
                 (case querySelector (field mf) i of
                    Some node \<Rightarrow>
                      (let (result, mf) = newRect (getNodeBounds node) mf
                       in (Some result,
                           case atomBoundsCache mf of
                             None \<Rightarrow> mf
                           | Some c \<Rightarrow> mf\<lparr>atomBoundsCache := Some (c(i \<mapsto> result))\<rparr>))
                  | None \<Rightarrow>
                      (None,
                       case atomBoundsCache mf of
                         None \<Rightarrow> mf
                       | Some c \<Rightarrow> mf\<lparr>atomBoundsCache := Some (c(i := None))\<rparr>))))"

subsection \<open>Bounding rectangle of a range\<close>

text \<open>
  The four assignments to \<open>result.top\<close>, \<open>result.bottom\<close>, \<open>result.left\<close> and
  \<open>result.right\<close>, in the order of the source: each reads the store as the one before
  left it, since \<open>result\<close> and \<open>bounds\<close> may be the same object.
\<close>

definition assignField :: "ref \<Rightarrow> (Rect \<Rightarrow> Rect) \<Rightarrow> Mathfield \<Rightarrow> Mathfield" where
  "assignField r f mf = mf\<lparr>rects := (rects mf)(r := f (rects mf r))\<rparr>"

definition extendResult :: "ref \<Rightarrow> ref \<Rightarrow> Mathfield \<Rightarrow> Mathfield" where
  "extendResult result bounds mf =
     (let mf = assignField result
                 (\<lambda>r. r\<lparr>top := min (top (rects mf result)) (top (rects mf bounds))\<rparr>) mf;
          mf = assignField result
                 (\<lambda>r. r\<lparr>bottom := max (bottom (rects mf result)) (bottom (rects mf bounds))\<rparr>) mf;
          mf = assignField result
                 (\<lambda>r. r\<lparr>left := min (left (rects mf result)) (left (rects mf bounds))\<rparr>) mf;
          mf = assignField result
                 (\<lambda>r. r\<lparr>right := max (right (rects mf result)) (right (rects mf bounds))\<rparr>) mf
      in mf)"

text \<open>
  The \<open>for\<close> loop of \<open>getRangeBoundingRect\<close>.  \<open>getAtomBounds(mf, mf.model.at(i))\<close> at
  an offset without an atom reads \<open>atom.id\<close> of \<open>undefined\<close>.
\<close>

function getRangeBoundingRect_loop ::
  "int \<Rightarrow> int \<Rightarrow> ref option \<Rightarrow> Mathfield \<Rightarrow> error + (ref option \<times> Mathfield)" where
  "getRangeBoundingRect_loop i endOffset result mf =
     (if i \<le> endOffset then
        (case model_at mf i of
           None \<Rightarrow> Inl TypeError
         | Some atom \<Rightarrow>
             (case getAtomBounds mf atom of
                (None, mf) \<Rightarrow> getRangeBoundingRect_loop (i + 1) endOffset result mf
              | (Some bounds, mf) \<Rightarrow>
                  (case result of
                     None \<Rightarrow> getRangeBoundingRect_loop (i + 1) endOffset (Some bounds) mf
                   | Some r \<Rightarrow>
                       getRangeBoundingRect_loop (i + 1) endOffset (Some r)
                         (extendResult r bounds mf))))
      else Inr (result, mf))"
  by pat_completeness auto
termination
  by (relation "measure (\<lambda>(i, endOffset, result, mf). nat (endOffset + 1 - i))") auto

declare getRangeBoundingRect_loop.simps [simp del]

definition zeroRect :: Rect where
  "zeroRect = \<lparr>top = 0, bottom = 0, left = 0, right = 0\<rparr>"

fun getRangeBoundingRect :: "Mathfield \<Rightarrow> int \<times> int \<Rightarrow> error + (ref \<times> Mathfield)" where
  "getRangeBoundingRect mf (start, endOffset) =
     (case getRangeBoundingRect_loop start endOffset None mf of
        Inl e \<Rightarrow> Inl e
      | Inr (Some result, mf) \<Rightarrow> Inr (result, mf)
      | Inr (None, mf) \<Rightarrow> Inr (newRect zeroRect mf))"

subsection \<open>Hyperlink lookup\<close>

definition href_command :: string where
  "href_command = CHR 0x5C # ''href''"

text \<open>\<open>xs[0]\<close> of an array: \<open>undefined\<close> when the array is empty.\<close>

definition first_arg :: "Argument list \<Rightarrow> Argument option" where
  "first_arg xs = (case xs of [] \<Rightarrow> None | x # _ \<Rightarrow> Some x)"

text \<open>The number of atoms from an atom to the root of its tree.\<close>

fun chain_length :: "Atom option \<Rightarrow> nat" where
  "chain_length None = 0"
| "chain_length (Some (Atom i p b c xs m d s)) = Suc (chain_length p)"

text \<open>
  The \<open>while (a)\<close> loop of \<open>getHref\<close>.  \<open>a.args[0]\<close> is read with no test of
  \<open>a.args\<close>: on an atom without an argument list it reads a property of \<open>undefined\<close>.
\<close>

function getHref_loop :: "Atom option \<Rightarrow> error + string" where
  "getHref_loop None = Inr []"
| "getHref_loop (Some a) =
     (if command a = href_command then
        (case args a of
           None \<Rightarrow> Inl TypeError
         | Some xs \<Rightarrow>
             (case first_arg xs of
                Some (StringArg url) \<Rightarrow> Inr url
              | _ \<Rightarrow> getHref_loop (parent a)))
      else getHref_loop (parent a))"
  by pat_completeness auto
termination
proof -
  have step: "chain_length (parent a) < chain_length (Some a)" for a
    by (cases a) simp
  show ?thesis
    by (relation "measure chain_length") (simp_all add: step)
qed

definition getHref :: "Mathfield \<Rightarrow> int \<Rightarrow> error + string" where
  "getHref mf offset = getHref_loop (model_at mf offset)"

subsection \<open>Element info\<close>

record DOMRect =
  dom_x :: real
  dom_y :: real
  dom_width :: real
  dom_height :: real

text \<open>
  \<open>ElementInfo\<close>: every property is optional.  \<open>data\<close> is an object whose
  properties are strings or \<open>undefined\<close>: a map from the keys it has to their values.
\<close>

record ElementInfo =
  bounds :: "DOMRect option"
  depth :: "int option"
  styleInfo :: "Style option"
  data :: "(string \<rightharpoonup> string option) option"
  idInfo :: "string option"
  latex :: "string option"

definition htmlData_command :: string where
  "htmlData_command = CHR 0x5C # ''htmlData''"

definition htmlId_command :: string where
  "htmlId_command = CHR 0x5C # ''htmlId''"

definition cssId_command :: string where
  "cssId_command = CHR 0x5C # ''cssId''"

text \<open>\<open>s.split(',')\<close>: the empty string gives one empty entry.\<close>

fun split_comma :: "string \<Rightarrow> string list" where
  "split_comma [] = [[]]"
| "split_comma (c # cs) =
     (if c = CHR '','' then [] # split_comma cs
      else (case split_comma cs of [] \<Rightarrow> [[c]] | x # xs \<Rightarrow> (c # x) # xs))"

text \<open>
  \<open>entry.match(/([^=]+)=(.+$)/)\<close>.  At a given start the first group takes the longest
  run of characters other than \<open>=\<close> (a shorter one is not followed by \<open>=\<close>); the
  second group must reach the end of the string, and \<open>.\<close> matches no line terminator.
  The match is the one at the leftmost start that has any.  Characters are code units
  below 256, where the line terminators are LF and CR.
\<close>

definition lineTerminator :: "char \<Rightarrow> bool" where
  "lineTerminator c = (c = CHR 0x0A \<or> c = CHR 0x0D)"

definition match_here :: "string \<Rightarrow> (string \<times> string) option" where
  "match_here s =
     (let k = takeWhile (\<lambda>c. c \<noteq> CHR ''='') s
      in case dropWhile (\<lambda>c. c \<noteq> CHR ''='') s of
           [] \<Rightarrow> None
         | _ # v \<Rightarrow>
             if k \<noteq> [] \<and> v \<noteq> [] \<and> \<not> list_ex lineTerminator v then Some (k, v) else None)"

fun regex_match :: "string \<Rightarrow> (string \<times> string) option" where
  "regex_match [] = None"
| "regex_match (c # cs) =
     (case match_here (c # cs) of Some m \<Rightarrow> Some m | None \<Rightarrow> regex_match cs)"

text \<open>
  \<open>trim()\<close> removes white space and line terminators at both ends (below 256: TAB, LF,
  VT, FF, CR, space and the no-break space); \<open>replace(/ /g, '-')\<close>.
\<close>

definition whiteSpace :: "char \<Rightarrow> bool" where
  "whiteSpace c = ((of_char c :: nat) \<in> {9, 10, 11, 12, 13, 32, 160})"

definition trim :: "string \<Rightarrow> string" where
  "trim s = rev (dropWhile whiteSpace (rev (dropWhile whiteSpace s)))"

definition replaceSpaces :: "string \<Rightarrow> string" where
  "replaceSpaces s = map (\<lambda>c. if c = CHR '' '' then CHR ''-'' else c) s"

text \<open>
  \<open>if (!result.data) result.data = {}; result.data[key] = v\<close>.  The object is a plain
  one, so the key \<open>__proto__\<close> names the accessor of \<open>Object.prototype\<close>: assigning
  a string or \<open>undefined\<close> to it stores nothing.  Any other key becomes a property of
  the object, or gets its new value.
\<close>

definition setData :: "string \<Rightarrow> string option \<Rightarrow> ElementInfo \<Rightarrow> ElementInfo" where
  "setData key v result =
     (let d = (case data result of None \<Rightarrow> Map.empty | Some d \<Rightarrow> d)
      in result\<lparr>data := Some (if key = ''__proto__'' then d else d(key \<mapsto> v))\<rparr>)"

text \<open>The body of \<open>for (const entry of entries)\<close>.\<close>

definition addEntry :: "ElementInfo \<Rightarrow> string \<Rightarrow> ElementInfo" where
  "addEntry result entry =
     (case regex_match entry of
        Some (g1, g2) \<Rightarrow>
          (let key = replaceSpaces (trim g1)
           in if key \<noteq> [] then setData key (Some g2) result else result)
      | None \<Rightarrow>
          (let key = replaceSpaces (trim entry)
           in if key \<noteq> [] then setData key None result else result))"

text \<open>The \<open>while (a)\<close> loop of \<open>getElementInfo\<close>.\<close>

function getElementInfo_loop :: "Atom option \<Rightarrow> ElementInfo \<Rightarrow> ElementInfo" where
  "getElementInfo_loop None result = result"
| "getElementInfo_loop (Some a) result =
     (let result =
            (if command a = htmlData_command then
               (case args a of
                  None \<Rightarrow> result
                | Some xs \<Rightarrow>
                    (case first_arg xs of
                       Some (StringArg s) \<Rightarrow> foldl addEntry result (split_comma s)
                     | _ \<Rightarrow> result))
             else result);
          result =
            (if command a = htmlId_command \<or> command a = cssId_command then
               (if falsy_string (idInfo result) then
                  (case args a of
                     None \<Rightarrow> result
                   | Some xs \<Rightarrow>
                       (case first_arg xs of
                          Some (StringArg s) \<Rightarrow> result\<lparr>idInfo := Some s\<rparr>
                        | _ \<Rightarrow> result))
                else result)
             else result)
      in getElementInfo_loop (parent a) result)"
  by pat_completeness auto
termination
proof -
  have step: "chain_length (parent a) < chain_length (Some a)" for a
    by (cases a) simp
  show ?thesis
    by (relation "measure (\<lambda>(a, result). chain_length a)") (simp_all add: step)
qed

text \<open>
  The first argument is \<open>Atom.serialize([atom], { defaultMode: 'math' })\<close> as a
  function of the atom: the serializer belongs to the atom class, which is not among the
  source files.
\<close>

definition getElementInfo ::
  "(Atom \<Rightarrow> string) \<Rightarrow> Mathfield option \<Rightarrow> int \<Rightarrow> ElementInfo option \<times> Mathfield option" where
  "getElementInfo serialize mf offset =
     (case mf of
        None \<Rightarrow> (None, None)
      | Some mf \<Rightarrow>
          (case model_at mf offset of
             None \<Rightarrow> (None, Some mf)
           | Some atom \<Rightarrow>
               (let result = \<lparr>bounds = None, depth = None, styleInfo = None, data = None,
                              idInfo = None, latex = None\<rparr>;
                    (b, mf) = getAtomBounds mf atom;
                    result =
                      (case b of
                         None \<Rightarrow> result
                       | Some r \<Rightarrow>
                           (let v = rects mf r
                            in result\<lparr>bounds := Some \<lparr>dom_x = left v, dom_y = top v,
                                 dom_width = right v - left v,
                                 dom_height = bottom v - top v\<rparr>\<rparr>));
                    result = result\<lparr>depth := Some (treeDepth atom - 2)\<rparr>;
                    result = result\<lparr>styleInfo := Some (style atom)\<rparr>;
                    result = getElementInfo_loop (Some atom) result;
                    result =
                      (if mode atom = ''math'' \<or> mode atom = ''text''
                       then result\<lparr>latex := Some (serialize atom)\<rparr> else result)
                in (Some result, Some mf))))"

section \<open>Notions of the specification\<close>

subsection \<open>Ancestor chain and hyperlink\<close>

text \<open>The chain of an atom: the atom itself, its parent, and so on to the root.\<close>

fun ancestors :: "Atom option \<Rightarrow> Atom list" where
  "ancestors None = []"
| "ancestors (Some (Atom i p b c xs m d s)) = Atom i p b c xs m d s # ancestors p"

text \<open>
  The first argument of an atom whose command is \<open>\href\<close> and whose first argument is
  a string.
\<close>

definition href_url :: "Atom \<Rightarrow> string option" where
  "href_url a =
     (if command a = href_command then
        (case args a of
           None \<Rightarrow> None
         | Some xs \<Rightarrow> (case first_arg xs of Some (StringArg url) \<Rightarrow> Some url | _ \<Rightarrow> None))
      else None)"

definition nearest_href :: "Atom list \<Rightarrow> string" where
  "nearest_href chain = (case firstSome (map href_url chain) of None \<Rightarrow> [] | Some url \<Rightarrow> url)"

definition href_args_present :: "Atom list \<Rightarrow> bool" where
  "href_args_present chain = list_all (\<lambda>a. command a = href_command \<longrightarrow> args a \<noteq> None) chain"

subsection \<open>Custom data\<close>

text \<open>A key as it is stored: trimmed, with hyphens for spaces.\<close>

definition normalizeKey :: "string \<Rightarrow> string" where
  "normalizeKey k = replaceSpaces (trim k)"

text \<open>
  What one token of a custom-data argument contributes: a key with a value, a bare key
  (its value is \<open>undefined\<close>), or nothing when the key is empty.
\<close>

definition parseEntry :: "string \<Rightarrow> (string \<times> string option) option" where
  "parseEntry entry =
     (case regex_match entry of
        Some (g1, g2) \<Rightarrow> if normalizeKey g1 = [] then None else Some (normalizeKey g1, Some g2)
      | None \<Rightarrow> if normalizeKey entry = [] then None else Some (normalizeKey entry, None))"

text \<open>The tokens of the custom-data command of an atom, if it is one.\<close>

definition htmlData_entries :: "Atom \<Rightarrow> string list" where
  "htmlData_entries a =
     (if command a = htmlData_command then
        (case args a of
           None \<Rightarrow> []
         | Some xs \<Rightarrow> (case first_arg xs of Some (StringArg s) \<Rightarrow> split_comma s | _ \<Rightarrow> []))
      else [])"

text \<open>The keys and values of every custom-data command of a chain, the atom's own first.\<close>

definition chain_pairs :: "Atom list \<Rightarrow> (string \<times> string option) list" where
  "chain_pairs chain = List.map_filter parseEntry (concat (map htmlData_entries chain))"

text \<open>The pairs that an assignment stores: all but those of the key \<open>__proto__\<close>.\<close>

definition stored_pairs :: "(string \<times> string option) list \<Rightarrow> (string \<times> string option) list" where
  "stored_pairs kvs = filter (\<lambda>kv. fst kv \<noteq> ''__proto__'') kvs"

text \<open>
  The \<open>data\<close> property after assigning the pairs in order: absent as long as no pair
  was assigned, else the object with the stored pairs, a later one standing for a key
  that occurs twice.
\<close>

definition assignData ::
  "(string \<rightharpoonup> string option) option \<Rightarrow> (string \<times> string option) list
   \<Rightarrow> (string \<rightharpoonup> string option) option" where
  "assignData d kvs =
     (if kvs = [] then d
      else Some ((case d of None \<Rightarrow> Map.empty | Some x \<Rightarrow> x) ++ map_of (rev (stored_pairs kvs))))"

subsection \<open>Bounds of a range\<close>

text \<open>
  The bounds that \<open>getAtomBounds\<close> resolves for an atom in a given state: the value of
  the rectangle it returns, if it returns one.
\<close>

definition boundsValue :: "Mathfield \<Rightarrow> Atom \<Rightarrow> Rect option" where
  "boundsValue mf atom =
     (case getAtomBounds mf atom of (None, mf') \<Rightarrow> None | (Some r, mf') \<Rightarrow> Some (rects mf' r))"

text \<open>The bounds resolved for the atom at an offset, if there is an atom.\<close>

definition boundsAt :: "Mathfield \<Rightarrow> int \<Rightarrow> Rect option" where
  "boundsAt mf i = (case model_at mf i of None \<Rightarrow> None | Some atom \<Rightarrow> boundsValue mf atom)"

text \<open>The resolvable bounds of the atoms at the offsets \<open>start\<close> to \<open>endOffset\<close>, in order.\<close>

definition resolvableBounds :: "Mathfield \<Rightarrow> int \<Rightarrow> int \<Rightarrow> Rect list" where
  "resolvableBounds mf start endOffset = List.map_filter (boundsAt mf) [start..endOffset]"

text \<open>The union of a list of rectangles; the degenerate rectangle for none.\<close>

fun unionAll :: "Rect list \<Rightarrow> Rect" where
  "unionAll [] = zeroRect"
| "unionAll (r # rs) = foldl unionRect r rs"

text \<open>
  Every reference held by the cache is an allocated one: the store is well formed.
\<close>

definition refs_allocated :: "Mathfield \<Rightarrow> bool" where
  "refs_allocated mf = (\<forall>i r. cache_get mf i = Some r \<longrightarrow> r < nextRef mf)"

text \<open>Every offset of the range has an atom.\<close>

definition offsets_valid :: "Mathfield \<Rightarrow> int \<Rightarrow> int \<Rightarrow> bool" where
  "offsets_valid mf start endOffset = (\<forall>i. start \<le> i \<and> i \<le> endOffset \<longrightarrow> model_at mf i \<noteq> None)"

text \<open>What an identifier resolves to: the cached rectangle, else the bounds of its node.\<close>

definition resolveId :: "Mathfield \<Rightarrow> string \<Rightarrow> Rect option" where
  "resolveId mf i =
     (case cache_get mf i of
        Some r \<Rightarrow> Some (rects mf r)
      | None \<Rightarrow> map_option getNodeBounds (querySelector (field mf) i))"

text \<open>Adding the bounds of one more atom to the rectangle accumulated so far.\<close>

definition accumulate :: "Rect option \<Rightarrow> Rect option \<Rightarrow> Rect option" where
  "accumulate acc v =
     (case v of None \<Rightarrow> acc | Some b \<Rightarrow> Some (case acc of None \<Rightarrow> b | Some a \<Rightarrow> unionRect a b))"

text \<open>
  The invariant of the loop of \<open>getRangeBoundingRect\<close>, between the state \<open>mf0\<close> it
  started in and the current one: only the result object has changed, and it holds a
  union that contains what its identifier resolved to at the start.
\<close>

definition loop_inv :: "Mathfield \<Rightarrow> Mathfield \<Rightarrow> ref option \<Rightarrow> bool" where
  "loop_inv mf0 mf result =
     (refs_allocated mf \<and> field mf = field mf0 \<and> atoms mf = atoms mf0
      \<and> (\<forall>r. result = Some r \<longrightarrow> r < nextRef mf)
      \<and> (\<forall>i. case cache_get mf i of
                 Some rc \<Rightarrow>
                   (\<exists>v. resolveId mf0 i = Some v
                      \<and> (if result = Some rc then unionRect (rects mf rc) v = rects mf rc
                          else rects mf rc = v))
               | None \<Rightarrow> resolveId mf0 i = map_option getNodeBounds (querySelector (field mf0) i)))"

section \<open>Example inputs\<close>

text \<open>Concrete mathfields, atoms and elements at which the properties below are evaluated.\<close>

definition example_style :: Style where
  "example_style = \<lparr>backgroundColor = None\<rparr>"

definition example_field :: Element where
  "example_field =
     Element \<lparr>top = 0, bottom = 40, left = 0, right = 200\<rparr> 0 0 200 ''SPAN'' 1 None []
       [Element \<lparr>top = 2, bottom = 12, left = 3, right = 13\<rparr> 0 0 10 ''SPAN'' 1 (Some ''a'') [] [],
        Element \<lparr>top = 5, bottom = 20, left = 13, right = 33\<rparr> 2 0 20 ''SPAN'' 1 (Some ''b'') [] []]"

definition href_root :: Atom where
  "href_root = Atom (Some ''r'') None None href_command (Some [StringArg ''https://a.example'', OtherArg])
     ''math'' 1 example_style"

definition href_mid :: Atom where
  "href_mid = Atom (Some ''m'') (Some href_root) (Some (BranchName ''body'')) href_command
     (Some [OtherArg]) ''math'' 2 example_style"

definition href_leaf :: Atom where
  "href_leaf = Atom (Some ''l'') (Some href_mid) (Some (BranchName ''body'')) ''x'' None
     ''math'' 3 example_style"

definition href_mathfield :: Mathfield where
  "href_mathfield =
     \<lparr>field = example_field, atoms = [href_root, href_mid, href_leaf], atomBoundsCache = None,
      rects = (\<lambda>_. zeroRect), nextRef = 0\<rparr>"

definition href_broken :: Atom where
  "href_broken = Atom (Some ''h'') (Some href_root) (Some (BranchName ''body'')) href_command None
     ''math'' 2 example_style"

definition href_broken_leaf :: Atom where
  "href_broken_leaf = Atom (Some ''l'') (Some href_broken) (Some (BranchName ''body'')) ''x'' None
     ''math'' 3 example_style"

definition broken_href_mathfield :: Mathfield where
  "broken_href_mathfield =
     \<lparr>field = example_field, atoms = [href_root, href_broken, href_broken_leaf],
      atomBoundsCache = None, rects = (\<lambda>_. zeroRect), nextRef = 0\<rparr>"

definition href_without_args :: Atom where
  "href_without_args = Atom (Some ''h'') None None href_command None ''math'' 1 example_style"

definition atom_a :: Atom where
  "atom_a = Atom (Some ''a'') None None ''x'' None ''math'' 1 example_style"

definition atom_b :: Atom where
  "atom_b = Atom (Some ''b'') None None ''y'' None ''math'' 1 example_style"

definition cached_mathfield :: Mathfield where
  "cached_mathfield =
     \<lparr>field = example_field, atoms = [atom_a, atom_b],
      atomBoundsCache = Some [''a'' \<mapsto> 0, ''b'' \<mapsto> 1],
      rects = (\<lambda>_. zeroRect)
        (0 := \<lparr>top = 0, bottom = 10, left = 0, right = 10\<rparr>,
         1 := \<lparr>top = 5, bottom = 20, left = 5, right = 20\<rparr>),
      nextRef = 2\<rparr>"

definition atom_without_id :: Atom where
  "atom_without_id = Atom None None None ''x'' None ''math'' 1 example_style"

definition atom_c :: Atom where
  "atom_c = Atom (Some ''c'') None None ''z'' None ''math'' 1 example_style"

definition uncached_mathfield :: Mathfield where
  "uncached_mathfield =
     \<lparr>field = example_field, atoms = [atom_a, atom_b], atomBoundsCache = None,
      rects = (\<lambda>_. zeroRect), nextRef = 0\<rparr>"

definition empty_cache_mathfield :: Mathfield where
  "empty_cache_mathfield =
     \<lparr>field = example_field, atoms = [atom_a, atom_b], atomBoundsCache = Some Map.empty,
      rects = (\<lambda>_. zeroRect), nextRef = 0\<rparr>"

definition unresolvable_mathfield :: Mathfield where
  "unresolvable_mathfield =
     \<lparr>field = example_field, atoms = [atom_without_id, atom_c], atomBoundsCache = Some Map.empty,
      rects = (\<lambda>_. zeroRect), nextRef = 0\<rparr>"

definition node_a :: Element where
  "node_a = Element \<lparr>top = 2, bottom = 12, left = 3, right = 13\<rparr> 0 0 10 ''SPAN'' 1 (Some ''a'') [] []"

definition nested_outer :: Atom where
  "nested_outer = Atom (Some ''o'') None None htmlData_command (Some [StringArg ''k=outer,z''])
     ''math'' 1 example_style"

definition nested_inner :: Atom where
  "nested_inner = Atom (Some ''i'') (Some nested_outer) (Some (BranchName ''body''))
     htmlData_command (Some [StringArg ''k=inner,y=2'']) ''math'' 2 example_style"

definition nested_leaf :: Atom where
  "nested_leaf = Atom (Some ''l'') (Some nested_inner) (Some (BranchName ''body'')) ''x'' None
     ''math'' 3 example_style"

definition nested_mathfield :: Mathfield where
  "nested_mathfield =
     \<lparr>field = example_field, atoms = [nested_leaf], atomBoundsCache = None,
      rects = (\<lambda>_. zeroRect), nextRef = 0\<rparr>"

definition proto_atom :: Atom where
  "proto_atom = Atom (Some ''p'') None None htmlData_command (Some [StringArg ''__proto__=1,q=2''])
     ''math'' 1 example_style"

definition proto_mathfield :: Mathfield where
  "proto_mathfield =
     \<lparr>field = example_field, atoms = [proto_atom], atomBoundsCache = None,
      rects = (\<lambda>_. zeroRect), nextRef = 0\<rparr>"

definition data_atom :: Atom where
  "data_atom = Atom (Some ''d'') None None htmlData_command (Some [StringArg ''a=1, b , c=2''])
     ''math'' 1 example_style"

definition data_mathfield :: Mathfield where
  "data_mathfield =
     \<lparr>field = example_field, atoms = [data_atom], atomBoundsCache = None,
      rects = (\<lambda>_. zeroRect), nextRef = 0\<rparr>"

text \<open>
  A field scrolled by 3 pixels with a rectangle whose coordinates are halves, and a
  field whose left edge is 9 pixels off the screen with a rectangle of width
  \<open>0.1\<close>: \<open>3602879701896397 / 2 ^ 55\<close> is the double that \<open>0.1\<close> denotes.
\<close>

definition scrolled_field :: Element where
  "scrolled_field =
     Element \<lparr>top = 10, bottom = 50, left = 20, right = 220\<rparr> 0 3 100 ''SPAN'' 1 None [] []"

definition raw_rect :: NumRect where
  "raw_rect = \<lparr>num_top = Finite (21 / 2), num_bottom = Finite 30,
                num_left = Finite (45 / 2), num_right = Finite 40\<rparr>"

definition offscreen_field :: Element where
  "offscreen_field =
     Element \<lparr>top = 0, bottom = 20, left = - 9, right = 91\<rparr> 0 0 100 ''SPAN'' 1 None [] []"

definition tenth_rect :: NumRect where
  "tenth_rect = \<lparr>num_top = Finite 0, num_bottom = Finite 0, num_left = Finite 0,
                  num_right = Finite (3602879701896397 / 36028797018963968)\<rparr>"

section \<open>Properties\<close>

subsection \<open>Rounding to double precision\<close>

text \<open>
  Powers of two, the exponent of a number, and the doubles as fixed points of the
  rounding: \<open>m * 2 ^ c\<close> with \<open>m < 2 ^ 53\<close> and \<open>- 1074 \<le> c \<le> 971\<close> is not changed
  (\<open>round64_exact\<close>), and what the rounding returns is not changed by rounding again
  (\<open>round64_idem\<close>).
\<close>

lemma pow2_pos: "0 < pow2 e"
  by (simp add: pow2_def)

lemma pow2_powr: "pow2 e = 2 powr of_int e"
  by (simp add: pow2_def powr_real_of_int field_simps)

lemma pow2_add: "pow2 (a + b) = pow2 a * pow2 b"
  by (simp add: pow2_powr powr_add)

lemma pow2_mono: "a \<le> b \<Longrightarrow> pow2 a \<le> pow2 b"
  by (simp add: pow2_powr)

lemma pow2_strict_mono: "a < b \<Longrightarrow> pow2 a < pow2 b"
  by (simp add: pow2_powr)

lemma floor_log2: 
  assumes "pow2 e \<le> \<bar>x\<bar>" and "\<bar>x\<bar> < pow2 (e + 1)"
  shows "\<lfloor>log 2 \<bar>x\<bar>\<rfloor> = e"
proof -
  have p: "0 < \<bar>x\<bar>" using assms(1) pow2_pos [of e] by linarith
  show ?thesis
    using assms p by (simp add: floor_log_eq_powr_iff pow2_powr)
qed

lemma floor_log2_bounds:
  assumes "x \<noteq> 0"
  shows "pow2 \<lfloor>log 2 \<bar>x\<bar>\<rfloor> \<le> \<bar>x\<bar>" and "\<bar>x\<bar> < pow2 (\<lfloor>log 2 \<bar>x\<bar>\<rfloor> + 1)"
proof -
  have p: "0 < \<bar>x\<bar>" using assms by simp
  have "\<lfloor>log 2 \<bar>x\<bar>\<rfloor> = \<lfloor>log 2 \<bar>x\<bar>\<rfloor>" ..
  then have "2 powr of_int \<lfloor>log 2 \<bar>x\<bar>\<rfloor> \<le> \<bar>x\<bar> \<and> \<bar>x\<bar> < 2 powr of_int (\<lfloor>log 2 \<bar>x\<bar>\<rfloor> + 1)"
    using floor_log_eq_powr_iff [of "\<bar>x\<bar>" 2 "\<lfloor>log 2 \<bar>x\<bar>\<rfloor>"] p by simp
  then show "pow2 \<lfloor>log 2 \<bar>x\<bar>\<rfloor> \<le> \<bar>x\<bar>" and "\<bar>x\<bar> < pow2 (\<lfloor>log 2 \<bar>x\<bar>\<rfloor> + 1)"
    by (simp_all add: pow2_powr)
qed

lemma roundTiesToEven_of_int: "roundTiesToEven (of_int m) = m"
  by (simp add: roundTiesToEven_def)

lemma roundTiesToEven_bounds:
  "\<lfloor>x\<rfloor> \<le> roundTiesToEven x" "roundTiesToEven x \<le> \<lfloor>x\<rfloor> + 1"
  by (simp_all add: roundTiesToEven_def Let_def)

lemma roundTiesToEven_mono_int:
  "of_int m \<le> x \<Longrightarrow> m \<le> roundTiesToEven x"
  "x \<le> of_int m \<Longrightarrow> roundTiesToEven x \<le> m"
proof -
  assume "of_int m \<le> x"
  then have "m \<le> \<lfloor>x\<rfloor>" by (simp add: le_floor_iff)
  then show "m \<le> roundTiesToEven x" using roundTiesToEven_bounds(1) [of x] by linarith
next
  assume a: "x \<le> of_int m"
  show "roundTiesToEven x \<le> m"
  proof (cases "x = of_int m")
    case True then show ?thesis by (simp add: roundTiesToEven_of_int)
  next
    case False
    then have "x < of_int m" using a by simp
    then have "\<lfloor>x\<rfloor> < m" by (simp add: floor_less_iff)
    then show ?thesis using roundTiesToEven_bounds(2) [of x] by linarith
  qed
qed


lemma pow2_nz: "pow2 e \<noteq> 0"
  using pow2_pos [of e] by simp

lemma pow2_numeral: "pow2 (numeral n) = 2 ^ numeral n" "pow2 (- numeral n) = 1 / 2 ^ numeral n"
  "pow2 0 = 1" "pow2 1 = 2" "pow2 (- 1) = 1 / 2"
  by (simp_all add: pow2_def)

lemma pow2_split: "pow2 e = 2 ^ 52 * pow2 (e - 52)" "pow2 (e + 1) = 2 ^ 53 * pow2 (e - 52)"
  using pow2_add [of 52 "e - 52"] pow2_add [of 53 "e - 52"]
  by (simp_all add: pow2_numeral ac_simps)

lemma round64_repr:
  assumes "v \<noteq> 0" and "\<bar>v\<bar> = of_int m * pow2 (e - 52)"
    and "max \<lfloor>log 2 \<bar>v\<bar>\<rfloor> (- 1022) = e" and "\<bar>v\<bar> < pow2 1024"
  shows "round64 v = Finite v"
proof -
  have d: "\<bar>v\<bar> / pow2 (e - 52) = of_int m"
    using assms(2) pow2_nz [of "e - 52"] by simp
  have "round64 v = Finite (sgn v * \<bar>v\<bar>)"
    using assms(1, 4) unfolding round64_def assms(3) Let_def d roundTiesToEven_of_int
    by (simp add: assms(2) [symmetric])
  then show ?thesis
    by (simp add: sgn_mult_abs)
qed

lemma floor_log2_less:
  assumes "v \<noteq> 0" and "\<bar>v\<bar> < pow2 e"
  shows "\<lfloor>log 2 \<bar>v\<bar>\<rfloor> < e"
proof (rule ccontr)
  assume "\<not> \<lfloor>log 2 \<bar>v\<bar>\<rfloor> < e"
  then have "pow2 e \<le> pow2 \<lfloor>log 2 \<bar>v\<bar>\<rfloor>"
    by (simp add: pow2_mono)
  then show False
    using floor_log2_bounds(1) [OF assms(1)] assms(2) by linarith
qed

lemma round64_significand:
  assumes "0 \<le> m" and "m \<le> 2 ^ 53" and "- 1022 \<le> e" and "e = - 1022 \<or> 2 ^ 52 \<le> m"
    and "\<bar>v\<bar> = of_int m * pow2 (e - 52)" and "\<bar>v\<bar> < pow2 1024"
  shows "round64 v = Finite v"
proof (cases "v = 0")
  case True
  then show ?thesis by (simp add: round64_def)
next
  case nz: False
  note s = pow2_split [of e]
  have q: "0 < pow2 (e - 52)" by (rule pow2_pos)
  show ?thesis
  proof (cases "m = 2 ^ 53")
    case True
    have v: "\<bar>v\<bar> = pow2 (e + 1)"
      using assms(5) True s(2) by simp
    have l: "\<lfloor>log 2 \<bar>v\<bar>\<rfloor> = e + 1"
      using floor_log2 [of "e + 1" v] v pow2_strict_mono [of "e + 1" "e + 1 + 1"] by simp
    have v': "\<bar>v\<bar> = of_int (2 ^ 52) * pow2 (e + 1 - 52)"
      using v pow2_split(1) [of "e + 1"] by simp
    show ?thesis
      using round64_repr [OF nz v' _ assms(6)] l assms(3) by simp
  next
    case False
    then have lt: "m < 2 ^ 53" using assms(2) by simp
    have up: "\<bar>v\<bar> < pow2 (e + 1)"
    proof -
      have "(of_int m :: real) < 2 ^ 53" using lt by (simp add: of_int_less_numeral_power_cancel_iff)
      then show ?thesis unfolding assms(5) s(2) using q by simp
    qed
    show ?thesis
    proof (cases "2 ^ 52 \<le> m")
      case True
      have "(2 ^ 52 :: real) \<le> of_int m" using True by (simp add: numeral_power_le_of_int_cancel_iff)
      then have lo: "pow2 e \<le> \<bar>v\<bar>" unfolding assms(5) s(1) using q by simp
      have l: "\<lfloor>log 2 \<bar>v\<bar>\<rfloor> = e" using floor_log2 [OF lo up] .
      show ?thesis
        using round64_repr [OF nz assms(5) _ assms(6)] l assms(3) by simp
    next
      case False
      then have e: "e = - 1022" and m: "m < 2 ^ 52" using assms(4) by simp_all
      have "(of_int m :: real) < 2 ^ 52" using m by (simp add: of_int_less_numeral_power_cancel_iff)
      then have "\<bar>v\<bar> < pow2 e" unfolding assms(5) s(1) using q by simp
      then have "\<lfloor>log 2 \<bar>v\<bar>\<rfloor> < e" using floor_log2_less [OF nz] by simp
      then have l: "max \<lfloor>log 2 \<bar>v\<bar>\<rfloor> (- 1022) = e" using e by simp
      show ?thesis
        using round64_repr [OF nz assms(5) l assms(6)] .
    qed
  qed
qed

lemma round64_idem:
  assumes "round64 x = Finite y"
  shows "round64 y = Finite y"
proof (cases "x = 0")
  case True
  then show ?thesis using assms by (auto simp: round64_def)
next
  case nz: False
  define e where "e = max \<lfloor>log 2 \<bar>x\<bar>\<rfloor> (- 1022)"
  define m where "m = roundTiesToEven (\<bar>x\<bar> / pow2 (e - 52))"
  have q: "0 < pow2 (e - 52)" by (rule pow2_pos)
  note s = pow2_split [of e]
  have y: "y = sgn x * (of_int m * pow2 (e - 52))" and b: "of_int m * pow2 (e - 52) < pow2 1024"
    using assms nz unfolding round64_def e_def [symmetric] Let_def m_def [symmetric]
    by (auto split: if_splits)
  have ge: "- 1022 \<le> e" by (simp add: e_def)
  have "0 \<le> \<bar>x\<bar> / pow2 (e - 52)" using q by simp
  then have "(0::int) \<le> roundTiesToEven (\<bar>x\<bar> / pow2 (e - 52))"
    using roundTiesToEven_mono_int(1) [of 0] by simp
  then have m0: "0 \<le> m" by (simp add: m_def)
  have "\<lfloor>log 2 \<bar>x\<bar>\<rfloor> + 1 \<le> e + 1" by (simp add: e_def)
  then have "\<bar>x\<bar> < pow2 (e + 1)"
    using floor_log2_bounds(2) [OF nz] pow2_mono [of "\<lfloor>log 2 \<bar>x\<bar>\<rfloor> + 1" "e + 1"] by linarith
  then have "\<bar>x\<bar> / pow2 (e - 52) \<le> of_int (2 ^ 53)"
    unfolding s(2) using q by (simp add: field_simps)
  then have m1: "m \<le> 2 ^ 53"
    unfolding m_def by (rule roundTiesToEven_mono_int(2))
  have m2: "e = - 1022 \<or> 2 ^ 52 \<le> m"
  proof (cases "e = - 1022")
    case True then show ?thesis by simp
  next
    case False
    then have "e = \<lfloor>log 2 \<bar>x\<bar>\<rfloor>" by (simp add: e_def max_def split: if_splits)
    then have "pow2 e \<le> \<bar>x\<bar>" using floor_log2_bounds(1) [OF nz] by simp
    then have "of_int (2 ^ 52) \<le> \<bar>x\<bar> / pow2 (e - 52)"
      unfolding s(1) using q by (simp add: field_simps)
    then have "2 ^ 52 \<le> m"
      unfolding m_def by (rule roundTiesToEven_mono_int(1))
    then show ?thesis by simp
  qed
  have a: "\<bar>y\<bar> = of_int m * pow2 (e - 52)"
    using nz m0 q by (simp add: y abs_mult abs_sgn_eq)
  show ?thesis
    using round64_significand [OF m0 m1 ge m2 a] b a by simp
qed

lemma round64_exact:
  assumes "\<bar>v\<bar> = of_int m * pow2 c" and "m < 2 ^ 53" and "- 1074 \<le> c" and "c \<le> 971"
  shows "round64 v = Finite v"
proof (cases "v = 0")
  case True
  then show ?thesis by (simp add: round64_def)
next
  case nz: False
  define e where "e = max \<lfloor>log 2 \<bar>v\<bar>\<rfloor> (- 1022)"
  have "(of_int m :: real) < 2 ^ 53"
    using assms(2) by (simp add: of_int_less_numeral_power_cancel_iff)
  then have "\<bar>v\<bar> < 2 ^ 53 * pow2 c"
    unfolding assms(1) using pow2_pos [of c] by simp
  then have u: "\<bar>v\<bar> < pow2 (c + 53)"
    using pow2_add [of c 53] by (simp add: pow2_numeral)
  have "pow2 (c + 53) \<le> pow2 1024"
    using assms(4) by (intro pow2_mono) simp
  then have b: "\<bar>v\<bar> < pow2 1024"
    using u by linarith
  have "\<lfloor>log 2 \<bar>v\<bar>\<rfloor> < c + 53"
    using u by (rule floor_log2_less [OF nz])
  then have le: "e - 52 \<le> c"
    using assms(3) by (simp add: e_def)
  define k where "k = nat (c - (e - 52))"
  have "pow2 c = pow2 (int k + (e - 52))"
    using le by (simp add: k_def)
  also have "\<dots> = 2 ^ k * pow2 (e - 52)"
    unfolding pow2_add by (simp add: pow2_def)
  finally have p: "pow2 c = 2 ^ k * pow2 (e - 52)" .
  have r: "\<bar>v\<bar> = of_int (m * 2 ^ k) * pow2 (e - 52)"
    unfolding assms(1) p by simp
  have l: "max \<lfloor>log 2 \<bar>v\<bar>\<rfloor> (- 1022) = e"
    by (simp add: e_def)
  show ?thesis
    by (rule round64_repr [OF nz r l b])
qed

lemma roundTiesToEven_down:
  assumes "of_int m \<le> x" and "x < of_int m + 1 / 2"
  shows "roundTiesToEven x = m"
proof -
  have "\<lfloor>x\<rfloor> = m"
    using assms by (intro floor_unique) simp_all
  then show ?thesis
    using assms by (simp add: roundTiesToEven_def)
qed

lemma round64_normal:
  assumes "pow2 e \<le> \<bar>x\<bar>" and "\<bar>x\<bar> < pow2 (e + 1)" and "- 1022 \<le> e" and "e \<le> 1022"
    and "roundTiesToEven (\<bar>x\<bar> / pow2 (e - 52)) = m"
  shows "round64 x = Finite (sgn x * (of_int m * pow2 (e - 52)))"
proof -
  have nz: "x \<noteq> 0"
    using assms(1) pow2_pos [of e] by auto
  have q: "0 < pow2 (e - 52)" by (rule pow2_pos)
  have "\<bar>x\<bar> / pow2 (e - 52) \<le> of_int (2 ^ 53)"
    using assms(2) unfolding pow2_split(2) [of e] using q by (simp add: field_simps)
  then have "m \<le> 2 ^ 53"
    unfolding assms(5) [symmetric] by (rule roundTiesToEven_mono_int(2))
  then have "(of_int m :: real) \<le> 2 ^ 53"
    by (simp add: of_int_le_numeral_power_cancel_iff)
  then have "of_int m * pow2 (e - 52) \<le> pow2 (e + 1)"
    unfolding pow2_split(2) [of e] using q by simp
  also have "\<dots> < pow2 1024"
    using assms(4) by (intro pow2_strict_mono) simp
  finally have b: "of_int m * pow2 (e - 52) < pow2 1024" .
  have l: "max \<lfloor>log 2 \<bar>x\<bar>\<rfloor> (- 1022) = e"
    using floor_log2 [OF assms(1, 2)] assms(3) by simp
  show ?thesis
    using nz b unfolding round64_def l Let_def assms(5) by simp
qed

lemma round64_0: "round64 0 = Finite 0"
  by (simp add: round64_def)

text \<open>
  A sum taken back: when \<open>l + w\<close> needs no rounding, \<open>(l + w) - l\<close> is \<open>w\<close>; when
  \<open>l\<close> is not finite, the difference is \<open>NaN\<close>.
\<close>

lemma js_sub_Finite: "js_sub a b = Finite w \<Longrightarrow> round64 w = Finite w"
  by (cases a; cases b) (simp_all add: round64_idem)

lemma js_add_sub_exact:
  assumes "js_sub a b = Finite w" and "round64 (l + w) = Finite (l + w)"
  shows "js_sub (js_add (Finite l) (js_sub a b)) (Finite l) = Finite w"
  using js_sub_Finite [OF assms(1)] assms by simp

lemma js_add_sub_not_finite:
  assumes "\<forall>l. v \<noteq> Finite l"
  shows "js_sub (js_add v u) v = NaN"
  using assms by (cases v; cases u) simp_all

subsection \<open>Origin validator, scroll adjustment, scale factor, branch key\<close>

text \<open>
  Claim C1.  \<open>validateOrigin\<close> follows its rules in order: the wildcard origin or the
  validator \<open>'none'\<close> accepts; otherwise \<open>'same-origin'\<close> accepts exactly when
  \<open>window.origin\<close> is not determinable (absent or empty) or equals the origin;
  otherwise a function validator decides; every other validator rejects.
\<close>

theorem validateOrigin_rules:
  "(origin = ''*'' \<or> v = StringValidator ''none'' \<longrightarrow> validateOrigin w origin v)
   \<and> (origin \<noteq> ''*'' \<and> v = StringValidator ''same-origin'' \<longrightarrow>
        validateOrigin w origin v = (w = None \<or> w = Some [] \<or> w = Some origin))
   \<and> (origin \<noteq> ''*'' \<and> v = FunctionValidator f \<longrightarrow> validateOrigin w origin v = f origin)
   \<and> (origin \<noteq> ''*'' \<and> v \<noteq> StringValidator ''none'' \<and> v \<noteq> StringValidator ''same-origin''
        \<and> (\<forall>g. v \<noteq> FunctionValidator g) \<longrightarrow> \<not> validateOrigin w origin v)"
  by (cases v; cases w)
    (auto simp: validateOrigin_def is_none_validator_def is_same_origin_validator_def
      falsy_string_def)

theorem validateOrigin_rules_witness:
  "validateOrigin (Some ''https://y'') ''https://x'' (StringValidator ''none'')
   \<and> validateOrigin (Some ''https://y'') ''*'' OtherValidator
   \<and> \<not> validateOrigin (Some ''https://y'') ''https://x'' (StringValidator ''same-origin'')
   \<and> validateOrigin (Some ''https://x'') ''https://x'' (StringValidator ''same-origin'')
   \<and> validateOrigin None ''https://x'' (StringValidator ''same-origin'')
   \<and> validateOrigin (Some ''https://y'') ''https://x'' (FunctionValidator (\<lambda>s. s = ''https://x''))
   \<and> \<not> validateOrigin (Some ''https://x'') ''https://x'' (StringValidator ''all'')
   \<and> \<not> validateOrigin (Some ''https://x'') ''https://x'' OtherValidator"
  using validateOrigin_rules [of "''https://x''" "StringValidator ''none''" "Some ''https://y''"]
    validateOrigin_rules [of "''*''" OtherValidator "Some ''https://y''"]
    validateOrigin_rules [of "''https://x''" "StringValidator ''same-origin''" "Some ''https://y''"]
    validateOrigin_rules [of "''https://x''" "StringValidator ''same-origin''" "Some ''https://x''"]
    validateOrigin_rules [of "''https://x''" "StringValidator ''same-origin''" None]
    validateOrigin_rules [of "''https://x''" "FunctionValidator (\<lambda>s. s = ''https://x'')" "Some ''https://y''" "\<lambda>s. s = ''https://x''"]
    validateOrigin_rules [of "''https://x''" "StringValidator ''all''" "Some ''https://x''"]
    validateOrigin_rules [of "''https://x''" OtherValidator "Some ''https://x''"]
  by simp

text \<open>
  Claim C5, amended.  \<open>adjustForScrolling\<close> returns \<open>null\<close> for \<open>null\<close>.  Otherwise
  it returns a rectangle whose left edge is the ceiling of
  \<open>left - field.left + field.scrollLeft * scale\<close> and whose top edge is the ceiling of
  \<open>top - field.top\<close>, each operation rounded to double precision; the right edge is the
  new left edge plus \<open>right - left\<close>, the bottom edge the new top edge plus
  \<open>bottom - top\<close>, again rounded.  The width of the result, \<open>right' - left'\<close>, is the
  width \<open>right - left\<close> of the given rectangle when the new left edge is finite and the
  sum of the new left edge and the width needs no rounding, and it is \<open>NaN\<close> when the
  new left edge is not finite; likewise the height.
\<close>

theorem adjustForScrolling_rounded:
  "adjustForScrolling fld None s = None
   \<and> (\<exists>r. adjustForScrolling fld (Some rect) s = Some r
        \<and> num_left r
            = Math_ceil (js_add (js_sub (num_left rect) (Finite (left (boundingClientRect fld))))
                                (js_mul (Finite (scrollLeft fld)) s))
        \<and> num_top r = Math_ceil (js_sub (num_top rect) (Finite (top (boundingClientRect fld))))
        \<and> num_right r = js_add (num_left r) (js_sub (num_right rect) (num_left rect))
        \<and> num_bottom r = js_add (num_top r) (js_sub (num_bottom rect) (num_top rect))
        \<and> (\<forall>l w. num_left r = Finite l \<and> js_sub (num_right rect) (num_left rect) = Finite w
               \<and> round64 (l + w) = Finite (l + w) \<longrightarrow>
             js_sub (num_right r) (num_left r) = Finite w)
        \<and> (\<forall>t h. num_top r = Finite t \<and> js_sub (num_bottom rect) (num_top rect) = Finite h
               \<and> round64 (t + h) = Finite (t + h) \<longrightarrow>
             js_sub (num_bottom r) (num_top r) = Finite h)
        \<and> ((\<forall>l. num_left r \<noteq> Finite l) \<longrightarrow> js_sub (num_right r) (num_left r) = NaN)
        \<and> ((\<forall>t. num_top r \<noteq> Finite t) \<longrightarrow> js_sub (num_bottom r) (num_top r) = NaN))"
proof -
  define w where "w = js_sub (num_right rect) (num_left rect)"
  define h where "h = js_sub (num_bottom rect) (num_top rect)"
  define l where "l = Math_ceil (js_add (js_sub (num_left rect) (Finite (left (boundingClientRect fld))))
                                (js_mul (Finite (scrollLeft fld)) s))"
  define t where "t = Math_ceil (js_sub (num_top rect) (Finite (top (boundingClientRect fld))))"
  define r where "r = \<lparr>num_top = t, num_bottom = js_add t h, num_left = l, num_right = js_add l w\<rparr>"
  have n: "adjustForScrolling fld None s = None"
    by (simp add: adjustForScrolling_def)
  have a: "adjustForScrolling fld (Some rect) s = Some r"
    by (simp add: adjustForScrolling_def Let_def r_def t_def l_def h_def w_def)
  have f: "num_left r = l" "num_top r = t" "num_right r = js_add l w" "num_bottom r = js_add t h"
    by (simp_all add: r_def)
  have 1: "\<forall>l' w'. num_left r = Finite l' \<and> js_sub (num_right rect) (num_left rect) = Finite w'
      \<and> round64 (l' + w') = Finite (l' + w') \<longrightarrow> js_sub (num_right r) (num_left r) = Finite w'"
    unfolding f w_def using js_add_sub_exact [of "num_right rect" "num_left rect"] by auto
  have 2: "\<forall>t' h'. num_top r = Finite t' \<and> js_sub (num_bottom rect) (num_top rect) = Finite h'
      \<and> round64 (t' + h') = Finite (t' + h') \<longrightarrow> js_sub (num_bottom r) (num_top r) = Finite h'"
    unfolding f h_def using js_add_sub_exact [of "num_bottom rect" "num_top rect"] by auto
  have 3: "(\<forall>l'. num_left r \<noteq> Finite l') \<longrightarrow> js_sub (num_right r) (num_left r) = NaN"
    unfolding f using js_add_sub_not_finite by blast
  have 4: "(\<forall>t'. num_top r \<noteq> Finite t') \<longrightarrow> js_sub (num_bottom r) (num_top r) = NaN"
    unfolding f using js_add_sub_not_finite by blast
  have 5: "num_left r
      = Math_ceil (js_add (js_sub (num_left rect) (Finite (left (boundingClientRect fld))))
                          (js_mul (Finite (scrollLeft fld)) s))"
    "num_top r = Math_ceil (js_sub (num_top rect) (Finite (top (boundingClientRect fld))))"
    "num_right r = js_add (num_left r) (js_sub (num_right rect) (num_left rect))"
    "num_bottom r = js_add (num_top r) (js_sub (num_bottom rect) (num_top rect))"
    by (simp_all add: f l_def t_def w_def h_def)
  have "\<exists>r. adjustForScrolling fld (Some rect) s = Some r
        \<and> num_left r
            = Math_ceil (js_add (js_sub (num_left rect) (Finite (left (boundingClientRect fld))))
                                (js_mul (Finite (scrollLeft fld)) s))
        \<and> num_top r = Math_ceil (js_sub (num_top rect) (Finite (top (boundingClientRect fld))))
        \<and> num_right r = js_add (num_left r) (js_sub (num_right rect) (num_left rect))
        \<and> num_bottom r = js_add (num_top r) (js_sub (num_bottom rect) (num_top rect))
        \<and> (\<forall>l w. num_left r = Finite l \<and> js_sub (num_right rect) (num_left rect) = Finite w
               \<and> round64 (l + w) = Finite (l + w) \<longrightarrow>
             js_sub (num_right r) (num_left r) = Finite w)
        \<and> (\<forall>t h. num_top r = Finite t \<and> js_sub (num_bottom rect) (num_top rect) = Finite h
               \<and> round64 (t + h) = Finite (t + h) \<longrightarrow>
             js_sub (num_bottom r) (num_top r) = Finite h)
        \<and> ((\<forall>l. num_left r \<noteq> Finite l) \<longrightarrow> js_sub (num_right r) (num_left r) = NaN)
        \<and> ((\<forall>t. num_top r \<noteq> Finite t) \<longrightarrow> js_sub (num_bottom r) (num_top r) = NaN)"
    apply (rule exI [of _ r])
    apply (rule conjI, rule a)
    apply (rule conjI, rule 5(1))
    apply (rule conjI, rule 5(2))
    apply (rule conjI, rule 5(3))
    apply (rule conjI, rule 5(4))
    apply (rule conjI, rule 1)
    apply (rule conjI, rule 2)
    apply (rule conjI, rule 3)
    apply (rule 4)
    done
  then show ?thesis
    using n by (rule conjI [rotated])
qed


theorem adjustForScrolling_rounded_witness:
  "adjustForScrolling scrolled_field None (Finite 2) = None
   \<and> (\<exists>r. adjustForScrolling scrolled_field (Some raw_rect) (Finite 2) = Some r
        \<and> num_left r = Finite 9 \<and> num_top r = Finite 1
        \<and> num_right r = Finite (53 / 2) \<and> num_bottom r = Finite (41 / 2)
        \<and> js_sub (num_right r) (num_left r) = Finite (35 / 2)
        \<and> js_sub (num_bottom r) (num_top r) = Finite (39 / 2))
   \<and> (\<exists>r. adjustForScrolling scrolled_field (Some raw_rect) PosInfinity = Some r
        \<and> num_left r = PosInfinity \<and> num_right r = PosInfinity
        \<and> js_sub (num_right r) (num_left r) = NaN)"
proof -
  have e1: "round64 (1 / 2) = Finite (1 / 2)"
    by (rule round64_exact [where m = 1 and c = "- 1"]) (simp_all add: pow2_numeral)
  have e5: "round64 (5 / 2) = Finite (5 / 2)"
    by (rule round64_exact [where m = 5 and c = "- 1"]) (simp_all add: pow2_numeral)
  have e17: "round64 (17 / 2) = Finite (17 / 2)"
    by (rule round64_exact [where m = 17 and c = "- 1"]) (simp_all add: pow2_numeral)
  have e35: "round64 (35 / 2) = Finite (35 / 2)"
    by (rule round64_exact [where m = 35 and c = "- 1"]) (simp_all add: pow2_numeral)
  have e39: "round64 (39 / 2) = Finite (39 / 2)"
    by (rule round64_exact [where m = 39 and c = "- 1"]) (simp_all add: pow2_numeral)
  have e41: "round64 (41 / 2) = Finite (41 / 2)"
    by (rule round64_exact [where m = 41 and c = "- 1"]) (simp_all add: pow2_numeral)
  have e53: "round64 (53 / 2) = Finite (53 / 2)"
    by (rule round64_exact [where m = 53 and c = "- 1"]) (simp_all add: pow2_numeral)
  note e = e1 e5 e17 e35 e39 e41 e53
  have i: "round64 6 = Finite 6"
    by (rule round64_exact [where m = 6 and c = 0]) (simp_all add: pow2_numeral)
  have c: "\<lceil>1 / 2 :: real\<rceil> = 1" "\<lceil>17 / 2 :: real\<rceil> = 9"
    by (simp_all add: ceiling_eq_iff)
  have f: "boundingClientRect scrolled_field = \<lparr>top = 10, bottom = 50, left = 20, right = 220\<rparr>"
    "scrollLeft scrolled_field = 3"
    by (simp_all add: scrolled_field_def)
  have n: "adjustForScrolling scrolled_field None (Finite 2) = None"
    using adjustForScrolling_rounded [where fld = scrolled_field and s = "Finite 2"] by simp
  obtain r where r: "adjustForScrolling scrolled_field (Some raw_rect) (Finite 2) = Some r"
    and l: "num_left r
            = Math_ceil (js_add (js_sub (num_left raw_rect)
                                        (Finite (left (boundingClientRect scrolled_field))))
                                (js_mul (Finite (scrollLeft scrolled_field)) (Finite 2)))"
    and t: "num_top r = Math_ceil (js_sub (num_top raw_rect)
                                          (Finite (top (boundingClientRect scrolled_field))))"
    and rr: "num_right r = js_add (num_left r) (js_sub (num_right raw_rect) (num_left raw_rect))"
    and b: "num_bottom r = js_add (num_top r) (js_sub (num_bottom raw_rect) (num_top raw_rect))"
    and w: "\<forall>l w. num_left r = Finite l
               \<and> js_sub (num_right raw_rect) (num_left raw_rect) = Finite w
               \<and> round64 (l + w) = Finite (l + w) \<longrightarrow>
             js_sub (num_right r) (num_left r) = Finite w"
    and h: "\<forall>t h. num_top r = Finite t
               \<and> js_sub (num_bottom raw_rect) (num_top raw_rect) = Finite h
               \<and> round64 (t + h) = Finite (t + h) \<longrightarrow>
             js_sub (num_bottom r) (num_top r) = Finite h"
    using adjustForScrolling_rounded
      [where fld = scrolled_field and rect = raw_rect and s = "Finite 2", THEN conjunct2]
    by (elim exE conjE)
  have l': "num_left r = Finite 9"
    unfolding l by (simp add: f raw_rect_def e i c)
  have t': "num_top r = Finite 1"
    unfolding t by (simp add: f raw_rect_def e c)
  have ws: "js_sub (num_right raw_rect) (num_left raw_rect) = Finite (35 / 2)"
    by (simp add: raw_rect_def e)
  have hs: "js_sub (num_bottom raw_rect) (num_top raw_rect) = Finite (39 / 2)"
    by (simp add: raw_rect_def e)
  have rr': "num_right r = Finite (53 / 2)"
    unfolding rr l' ws by (simp add: e)
  have b': "num_bottom r = Finite (41 / 2)"
    unfolding b t' hs by (simp add: e)
  have w': "js_sub (num_right r) (num_left r) = Finite (35 / 2)"
    using w [rule_format, of 9 "35 / 2"] l' ws by (simp add: e)
  have h': "js_sub (num_bottom r) (num_top r) = Finite (39 / 2)"
    using h [rule_format, of 1 "39 / 2"] t' hs by (simp add: e)
  obtain r' where r': "adjustForScrolling scrolled_field (Some raw_rect) PosInfinity = Some r'"
    and l2: "num_left r'
            = Math_ceil (js_add (js_sub (num_left raw_rect)
                                        (Finite (left (boundingClientRect scrolled_field))))
                                (js_mul (Finite (scrollLeft scrolled_field)) PosInfinity))"
    and r2: "num_right r' = js_add (num_left r') (js_sub (num_right raw_rect) (num_left raw_rect))"
    and n2: "(\<forall>l. num_left r' \<noteq> Finite l) \<longrightarrow> js_sub (num_right r') (num_left r') = NaN"
    using adjustForScrolling_rounded
      [where fld = scrolled_field and rect = raw_rect and s = PosInfinity, THEN conjunct2]
    by (elim exE conjE)
  have l2': "num_left r' = PosInfinity"
    unfolding l2 by (simp add: f raw_rect_def e)
  have r2': "num_right r' = PosInfinity"
    unfolding r2 l2' ws by simp
  have n2': "js_sub (num_right r') (num_left r') = NaN"
    using n2 l2' by simp
  show ?thesis
    using n r l' t' rr' b' w' h' r' l2' r2' n2' by blast
qed

text \<open>
  The claim as stated, that the width of the result is \<open>right - left\<close>, fails where the
  sum is rounded.  The field has its left edge at \<open>-9\<close> and is not scrolled, the scale
  is 1, the rectangle goes from 0 to \<open>0.1\<close>.  The new left edge is 9, the new right edge
  is \<open>9 + 0.1\<close>, rounded to the double \<open>5122844576133939 / 2 ^ 49\<close> (printed
  \<open>9.1\<close>), and the new width is \<open>56294995342131 / 2 ^ 49\<close> (printed
  \<open>0.09999999999999964\<close>), not \<open>0.1\<close>.
\<close>

theorem adjustForScrolling_loses_width:
  "adjustForScrolling offscreen_field (Some tenth_rect) (Finite 1)
     = Some \<lparr>num_top = Finite 0, num_bottom = Finite 0, num_left = Finite 9,
              num_right = Finite (5122844576133939 / 562949953421312)\<rparr>
   \<and> js_sub (num_right tenth_rect) (num_left tenth_rect)
       = Finite (3602879701896397 / 36028797018963968)
   \<and> js_sub (Finite (5122844576133939 / 562949953421312)) (Finite 9)
       = Finite (56294995342131 / 562949953421312)
   \<and> 56294995342131 / 562949953421312 \<noteq> (3602879701896397 / 36028797018963968 :: real)"
proof -
  have r9: "round64 9 = Finite 9"
    by (rule round64_exact [where m = 9 and c = 0]) (simp_all add: pow2_numeral)
  have rd: "round64 (3602879701896397 / 36028797018963968)
      = Finite (3602879701896397 / 36028797018963968)"
    by (rule round64_exact [where m = 3602879701896397 and c = "- 55"])
      (simp_all add: pow2_numeral)
  have rw: "round64 (56294995342131 / 562949953421312)
      = Finite (56294995342131 / 562949953421312)"
    by (rule round64_exact [where m = 56294995342131 and c = "- 49"])
      (simp_all add: pow2_numeral)
  have m: "roundTiesToEven (\<bar>9 + 3602879701896397 / 36028797018963968\<bar> / pow2 (3 - 52))
      = 5122844576133939"
    by (rule roundTiesToEven_down) (simp_all add: pow2_numeral)
  have rs: "round64 (9 + 3602879701896397 / 36028797018963968)
      = Finite (5122844576133939 / 562949953421312)"
    using round64_normal [where e = 3 and x = "9 + 3602879701896397 / 36028797018963968", OF _ _ _ _ m]
    by (simp add: pow2_numeral)
  have l: "Math_ceil (js_add (js_sub (Finite 0) (Finite (- 9))) (js_mul (Finite 0) (Finite 1)))
      = Finite 9"
    by (simp add: r9 round64_0)
  have t: "Math_ceil (Finite 0) = Finite 0"
    by simp
  have w: "js_sub (Finite (3602879701896397 / 36028797018963968)) (Finite 0)
      = Finite (3602879701896397 / 36028797018963968)"
    by (simp add: rd)
  have h: "js_sub (Finite 0) (Finite 0) = Finite 0"
    by (simp add: round64_0)
  have r: "js_add (Finite 9) (Finite (3602879701896397 / 36028797018963968))
      = Finite (5122844576133939 / 562949953421312)"
    by (simp only: js_add.simps rs)
  have b: "js_add (Finite 0) (Finite 0) = Finite 0"
    by (simp add: round64_0)
  have 1: "adjustForScrolling offscreen_field (Some tenth_rect) (Finite 1)
     = Some \<lparr>num_top = Finite 0, num_bottom = Finite 0, num_left = Finite 9,
              num_right = Finite (5122844576133939 / 562949953421312)\<rparr>"
    by (simp only: adjustForScrolling_def offscreen_field_def tenth_rect_def Let_def
        option.case Element.sel Rect.simps NumRect.simps l t w h r b)
  have 2: "js_sub (num_right tenth_rect) (num_left tenth_rect)
       = Finite (3602879701896397 / 36028797018963968)"
    by (simp only: tenth_rect_def NumRect.simps w)
  have "(5122844576133939 / 562949953421312 - 9 :: real) = 56294995342131 / 562949953421312"
    by simp
  then have 3: "js_sub (Finite (5122844576133939 / 562949953421312)) (Finite 9)
       = Finite (56294995342131 / 562949953421312)"
    by (simp only: js_sub.simps rw)
  have 4: "56294995342131 / 562949953421312 \<noteq> (3602879701896397 / 36028797018963968 :: real)"
    by simp
  show ?thesis
    by (intro conjI) (fact 1 2 3 4)+
qed




text \<open>
  Claim C10.  The branch key of an atom without a parent is \<open>root\<close>.  Otherwise it is
  the identifier of the parent (empty when it has none), a hyphen, and the branch tag
  when the tag is a string; for a row and column tag it is the parent identifier, a
  hyphen, and the first component of the tag twice, separated by a slash: the column
  does not occur in the key.
\<close>

theorem branchId_key:
  "(parent atom = None \<longrightarrow> branchId atom = Inr ''root'')
   \<and> (parent atom = Some p \<and> parentBranch atom = Some (BranchName b) \<longrightarrow>
        branchId atom = Inr ((case atom_id p of None \<Rightarrow> [] | Some i \<Rightarrow> i) @ ''-'' @ b))
   \<and> (parent atom = Some p \<and> parentBranch atom = Some (BranchCell row col) \<longrightarrow>
        branchId atom =
          Inr ((case atom_id p of None \<Rightarrow> [] | Some i \<Rightarrow> i)
               @ ''-'' @ numberToString row @ ''/'' @ numberToString row))"
  by (simp add: branchId_def Let_def)

theorem branchId_key_witness:
  "branchId (Atom (Some ''a1'') None None ''x'' None ''math'' 1 \<lparr>backgroundColor = None\<rparr>)
     = Inr ''root''
   \<and> branchId (Atom (Some ''a2'')
        (Some (Atom (Some ''p1'') None None ''frac'' None ''math'' 1 \<lparr>backgroundColor = None\<rparr>))
        (Some (BranchName ''above'')) ''x'' None ''math'' 2 \<lparr>backgroundColor = None\<rparr>)
     = Inr ''p1-above''
   \<and> branchId (Atom (Some ''a3'')
        (Some (Atom (Some ''p1'') None None ''array'' None ''math'' 1 \<lparr>backgroundColor = None\<rparr>))
        (Some (BranchCell 3 12)) ''x'' None ''math'' 2 \<lparr>backgroundColor = None\<rparr>)
     = Inr ''p1-3/3''"
proof -
  have n: "numberToString 3 = ''3''" by code_simp
  show ?thesis
    using branchId_key
      [of "Atom (Some ''a1'') None None ''x'' None ''math'' 1 \<lparr>backgroundColor = None\<rparr>"]
      branchId_key
      [of "Atom (Some ''a2'')
        (Some (Atom (Some ''p1'') None None ''frac'' None ''math'' 1 \<lparr>backgroundColor = None\<rparr>))
        (Some (BranchName ''above'')) ''x'' None ''math'' 2 \<lparr>backgroundColor = None\<rparr>"
        "Atom (Some ''p1'') None None ''frac'' None ''math'' 1 \<lparr>backgroundColor = None\<rparr>"
        "''above''"]
      branchId_key
      [of "Atom (Some ''a3'')
        (Some (Atom (Some ''p1'') None None ''array'' None ''math'' 1 \<lparr>backgroundColor = None\<rparr>))
        (Some (BranchCell 3 12)) ''x'' None ''math'' 2 \<lparr>backgroundColor = None\<rparr>"
        "Atom (Some ''p1'') None None ''array'' None ''math'' 1 \<lparr>backgroundColor = None\<rparr>"
        _ 3 12]
    by (simp add: n)
qed

subsection \<open>Hyperlink lookup\<close>

lemma ancestors_Some: "ancestors (Some a) = a # ancestors (parent a)"
  by (cases a) simp

lemma getHref_loop_present:
  "href_args_present (ancestors a) \<Longrightarrow> getHref_loop a = Inr (nearest_href (ancestors a))"
proof (induction a rule: getHref_loop.induct)
  case 1
  show ?case by (simp add: nearest_href_def)
next
  case (2 a)
  from "2.prems" have rest: "href_args_present (ancestors (parent a))"
    and here: "command a = href_command \<longrightarrow> args a \<noteq> None"
    by (simp_all add: ancestors_Some href_args_present_def)
  show ?case
  proof (cases "href_url a")
    case None
    with here have "getHref_loop (Some a) = getHref_loop (parent a)"
      by (auto simp: href_url_def split: if_splits option.splits Argument.splits)
    moreover have "getHref_loop (parent a) = Inr (nearest_href (ancestors (parent a)))"
      using "2.IH" rest None here
      by (auto simp: href_url_def split: if_splits option.splits Argument.splits)
    ultimately show ?thesis
      using None by (simp add: ancestors_Some nearest_href_def)
  next
    case (Some url)
    then have "getHref_loop (Some a) = Inr url"
      by (auto simp: href_url_def split: if_splits option.splits Argument.splits)
    then show ?thesis
      using Some by (simp add: ancestors_Some nearest_href_def)
  qed
qed

lemma getHref_loop_returns:
  "getHref_loop a = Inr s \<Longrightarrow> s = nearest_href (ancestors a)"
proof (induction a rule: getHref_loop.induct)
  case 1
  then show ?case by (simp add: nearest_href_def)
next
  case (2 a)
  show ?case
  proof (cases "href_url a")
    case None
    with "2.prems" have "getHref_loop (parent a) = Inr s"
      by (auto simp: href_url_def split: if_splits option.splits Argument.splits)
    moreover from this have "s = nearest_href (ancestors (parent a))"
      using "2.IH" None "2.prems"
      by (auto simp: href_url_def split: if_splits option.splits Argument.splits)
    ultimately show ?thesis
      using None by (simp add: ancestors_Some nearest_href_def)
  next
    case (Some url)
    then have "getHref_loop (Some a) = Inr url"
      by (auto simp: href_url_def split: if_splits option.splits Argument.splits)
    with "2.prems" show ?thesis
      using Some by (simp add: ancestors_Some nearest_href_def)
  qed
qed

text \<open>
  What \<open>getHref\<close> returns: the first argument of the first atom of the chain, the atom
  at the offset included, whose command is \<open>\href\<close> and whose first argument is a
  string, and the empty string when the chain has no such atom.  It returns whenever the
  \<open>\href\<close> atoms of the chain carry an argument list, and whenever it returns, this is
  the value.
\<close>

lemma getHref_nearest:
  "(href_args_present (ancestors (model_at mf offset)) \<longrightarrow>
      getHref mf offset = Inr (nearest_href (ancestors (model_at mf offset))))
   \<and> (getHref mf offset = Inr s \<longrightarrow> s = nearest_href (ancestors (model_at mf offset)))"
  by (simp add: getHref_def getHref_loop_present getHref_loop_returns)

lemma getHref_nearest_example:
  "href_args_present (ancestors (model_at href_mathfield 2))
   \<and> getHref href_mathfield 2 = Inr ''https://a.example''
   \<and> href_args_present (ancestors (model_at href_mathfield 7))
   \<and> getHref href_mathfield 7 = Inr []"
proof -
  have a: "model_at href_mathfield 2 = Some href_leaf" "model_at href_mathfield 7 = None"
    by (simp_all add: model_at_def href_mathfield_def)
  have c: "ancestors (Some href_leaf) = [href_leaf, href_mid, href_root]"
    by (simp add: href_leaf_def href_mid_def href_root_def)
  have p: "href_args_present [href_leaf, href_mid, href_root]"
    by (simp add: href_args_present_def href_leaf_def href_mid_def href_root_def
        href_command_def)
  have n: "nearest_href [href_leaf, href_mid, href_root] = ''https://a.example''"
    by (simp add: nearest_href_def href_url_def href_leaf_def href_mid_def href_root_def
        href_command_def first_arg_def)
  have p7: "href_args_present (ancestors None)"
    by (simp add: href_args_present_def)
  have n7: "nearest_href (ancestors None) = []"
    by (simp add: nearest_href_def)
  have r2: "getHref href_mathfield 2 = Inr ''https://a.example''"
    using getHref_nearest [of href_mathfield 2 "[]", THEN conjunct1] p n unfolding a c by simp
  have r7: "getHref href_mathfield 7 = Inr []"
    using getHref_nearest [of href_mathfield 7 "[]", THEN conjunct1] p7 n7 unfolding a by simp
  show ?thesis
    unfolding a c using p p7 r2 r7 by simp
qed

text \<open>
  Claim C9 says that \<open>getHref\<close> walks the chain from the atom at the offset to the root
  and returns the first argument of the first atom whose command is \<open>\href\<close> and whose
  first argument is a string, passing the \<open>\href\<close> atoms whose first argument is not a
  string.  The code does not keep to it for an \<open>\href\<close> atom without an argument list:
  its first argument is not a string, the walk should pass it, and the unguarded read of
  \<open>a.args[0]\<close> throws instead.  Below, the atom at the offset lies in such an atom, which
  lies in an \<open>\href\<close> atom with a URL: the claim gives the URL, the code a
  \<open>TypeError\<close>.
\<close>

theorem getHref_throws_below_href:
  "model_at broken_href_mathfield 2 = Some href_broken_leaf
   \<and> ancestors (Some href_broken_leaf) = [href_broken_leaf, href_broken, href_root]
   \<and> href_url href_broken_leaf = None \<and> href_url href_broken = None
   \<and> href_url href_root = Some ''https://a.example''
   \<and> nearest_href (ancestors (Some href_broken_leaf)) = ''https://a.example''
   \<and> getHref broken_href_mathfield 2 = Inl TypeError"
  by (simp add: getHref_def model_at_def broken_href_mathfield_def href_broken_leaf_def
      href_broken_def href_root_def nearest_href_def href_url_def href_command_def first_arg_def)

subsection \<open>Absence of exceptions\<close>

text \<open>
  Claim C4 says that no operation of this layer throws: each one terminates normally
  and reports absence by \<open>null\<close>, \<open>undefined\<close>, an empty collection or an empty
  string.  \<open>getHref\<close> does not keep to it: it reads \<open>a.args[0]\<close> with no test of
  \<open>a.args\<close>, a test that \<open>getElementInfo\<close> makes before the same read.  For an atom
  whose command is \<open>\href\<close> and that has no argument list, the read is a
  \<open>TypeError\<close> instead of the empty string.
\<close>

theorem getHref_missing_args:
  "getHref (href_mathfield\<lparr>atoms := [href_without_args]\<rparr>) 0 = Inl TypeError"
  by (simp add: getHref_def model_at_def href_without_args_def)

subsection \<open>Bounds cache lookup\<close>

text \<open>\<open>getAtomBounds\<close> with the test \<open>!atom.id\<close> as one condition.\<close>

lemma getAtomBounds_unfold:
  "getAtomBounds mf atom =
     (if falsy_string (atom_id atom) then (None, mf)
      else (let i = the (atom_id atom) in
        case cache_get mf i of
          Some result \<Rightarrow> (Some result, mf)
        | None \<Rightarrow>
            (case querySelector (field mf) i of
               Some node \<Rightarrow>
                 (let (result, mf) = newRect (getNodeBounds node) mf
                  in (Some result,
                      case atomBoundsCache mf of
                        None \<Rightarrow> mf
                      | Some c \<Rightarrow> mf\<lparr>atomBoundsCache := Some (c(i \<mapsto> result))\<rparr>))
             | None \<Rightarrow>
                 (None,
                  case atomBoundsCache mf of
                    None \<Rightarrow> mf
                  | Some c \<Rightarrow> mf\<lparr>atomBoundsCache := Some (c(i := None))\<rparr>))))"
  by (cases "atom_id atom") (simp_all add: getAtomBounds_def falsy_string_def)

lemma query_a: "querySelector example_field ''a'' = Some node_a"
  by (simp add: querySelector_def example_field_def findAtomNode.simps node_a_def)

lemma query_c: "querySelector example_field ''c'' = None"
  by (simp add: querySelector_def example_field_def findAtomNode.simps)

lemma bounds_node_a: "getNodeBounds node_a = \<lparr>top = 1, bottom = 12, left = 3, right = 12\<rparr>"
  by (simp add: getNodeBounds.simps node_a_def)

text \<open>
  Claim C2, amended.  \<open>getAtomBounds\<close> returns \<open>null\<close> for an atom without an
  identifier.  When the identifier is in the bounds cache it returns the cached
  rectangle, whatever the DOM holds.  On a miss it looks the element up in the field:
  when there is one, it computes the node bounds and returns them, and stores them in
  the cache if the mathfield has a cache (a mathfield without one stays without); when
  there is none, it returns \<open>null\<close> and the cache, if there is one, has no entry for
  the identifier.
\<close>

theorem getAtomBounds_contract:
  "(falsy_string (atom_id atom) \<longrightarrow> getAtomBounds mf atom = (None, mf))
   \<and> (atom_id atom = Some i \<and> i \<noteq> [] \<and> cache_get mf i = Some r \<longrightarrow>
        (\<forall>f. getAtomBounds (mf\<lparr>field := f\<rparr>) atom = (Some r, mf\<lparr>field := f\<rparr>)))
   \<and> (atom_id atom = Some i \<and> i \<noteq> [] \<and> cache_get mf i = None
        \<and> querySelector (field mf) i = Some node \<longrightarrow>
        (\<exists>r' mf'. getAtomBounds mf atom = (Some r', mf')
           \<and> rects mf' r' = getNodeBounds node
           \<and> atomBoundsCache mf' = map_option (\<lambda>c. c(i \<mapsto> r')) (atomBoundsCache mf)))
   \<and> (atom_id atom = Some i \<and> i \<noteq> [] \<and> cache_get mf i = None
        \<and> querySelector (field mf) i = None \<longrightarrow>
        (\<exists>mf'. getAtomBounds mf atom = (None, mf')
           \<and> cache_get mf' i = None
           \<and> atomBoundsCache mf' = map_option (\<lambda>c. c(i := None)) (atomBoundsCache mf)
           \<and> rects mf' = rects mf))"
proof (intro conjI impI)
  assume "falsy_string (atom_id atom)"
  then show "getAtomBounds mf atom = (None, mf)"
    by (simp add: getAtomBounds_unfold)
next
  assume "atom_id atom = Some i \<and> i \<noteq> [] \<and> cache_get mf i = Some r"
  then show "\<forall>f. getAtomBounds (mf\<lparr>field := f\<rparr>) atom = (Some r, mf\<lparr>field := f\<rparr>)"
    by (simp add: getAtomBounds_unfold falsy_string_def cache_get_def)
next
  assume "atom_id atom = Some i \<and> i \<noteq> [] \<and> cache_get mf i = None
    \<and> querySelector (field mf) i = Some node"
  then show "\<exists>r' mf'. getAtomBounds mf atom = (Some r', mf')
       \<and> rects mf' r' = getNodeBounds node
       \<and> atomBoundsCache mf' = map_option (\<lambda>c. c(i \<mapsto> r')) (atomBoundsCache mf)"
    by (cases "atomBoundsCache mf")
      (simp_all add: getAtomBounds_unfold falsy_string_def cache_get_def newRect_def)
next
  assume "atom_id atom = Some i \<and> i \<noteq> [] \<and> cache_get mf i = None
    \<and> querySelector (field mf) i = None"
  then show "\<exists>mf'. getAtomBounds mf atom = (None, mf')
       \<and> cache_get mf' i = None
       \<and> atomBoundsCache mf' = map_option (\<lambda>c. c(i := None)) (atomBoundsCache mf)
       \<and> rects mf' = rects mf"
    by (cases "atomBoundsCache mf")
      (simp_all add: getAtomBounds_unfold falsy_string_def cache_get_def)
qed

theorem getAtomBounds_contract_witness:
  "falsy_string (atom_id atom_without_id)
   \<and> getAtomBounds cached_mathfield atom_without_id = (None, cached_mathfield)
   \<and> cache_get cached_mathfield ''a'' = Some 0
   \<and> getAtomBounds (cached_mathfield\<lparr>field := node_a\<rparr>) atom_a
       = (Some 0, cached_mathfield\<lparr>field := node_a\<rparr>)
   \<and> cache_get empty_cache_mathfield ''a'' = None
   \<and> querySelector (field empty_cache_mathfield) ''a'' = Some node_a
   \<and> (\<exists>r' mf'. getAtomBounds empty_cache_mathfield atom_a = (Some r', mf')
         \<and> rects mf' r' = \<lparr>top = 1, bottom = 12, left = 3, right = 12\<rparr>
         \<and> atomBoundsCache mf' = Some [''a'' \<mapsto> r'])
   \<and> cache_get empty_cache_mathfield ''c'' = None
   \<and> querySelector (field empty_cache_mathfield) ''c'' = None
   \<and> (\<exists>mf'. getAtomBounds empty_cache_mathfield atom_c = (None, mf')
         \<and> cache_get mf' ''c'' = None)"
proof -
  have h1: "falsy_string (atom_id atom_without_id)"
    by (simp add: atom_without_id_def falsy_string_def)
  have h2: "atom_id atom_a = Some ''a'' \<and> ''a'' \<noteq> [] \<and> cache_get cached_mathfield ''a'' = Some 0"
    by (simp add: atom_a_def cache_get_def cached_mathfield_def)
  have h3: "atom_id atom_a = Some ''a'' \<and> ''a'' \<noteq> [] \<and> cache_get empty_cache_mathfield ''a'' = None
      \<and> querySelector (field empty_cache_mathfield) ''a'' = Some node_a"
    by (simp add: atom_a_def cache_get_def empty_cache_mathfield_def query_a)
  have h4: "atom_id atom_c = Some ''c'' \<and> ''c'' \<noteq> [] \<and> cache_get empty_cache_mathfield ''c'' = None
      \<and> querySelector (field empty_cache_mathfield) ''c'' = None"
    by (simp add: atom_c_def cache_get_def empty_cache_mathfield_def query_c)
  have c: "atomBoundsCache empty_cache_mathfield = Some Map.empty"
    by (simp add: empty_cache_mathfield_def)
  show ?thesis
    using getAtomBounds_contract
        [where atom = atom_without_id and mf = cached_mathfield, THEN conjunct1] h1
      getAtomBounds_contract
        [where atom = atom_a and i = "''a''" and mf = cached_mathfield and r = 0,
          THEN conjunct2, THEN conjunct1] h2
      getAtomBounds_contract
        [where atom = atom_a and i = "''a''" and mf = empty_cache_mathfield and node = node_a,
          THEN conjunct2, THEN conjunct2, THEN conjunct1] h3
      getAtomBounds_contract
        [where atom = atom_c and i = "''c''" and mf = empty_cache_mathfield,
          THEN conjunct2, THEN conjunct2, THEN conjunct2] h4
    by (auto simp add: bounds_node_a c)
qed

text \<open>
  The claim as stated, that the bounds found on a miss are stored in the cache, fails
  for a mathfield whose \<open>atomBoundsCache\<close> is \<open>undefined\<close>: the bounds are computed
  and returned, and nothing is stored.
\<close>

theorem getAtomBounds_without_cache:
  "atom_id atom_a = Some ''a''
   \<and> cache_get uncached_mathfield ''a'' = None
   \<and> querySelector (field uncached_mathfield) ''a'' = Some node_a
   \<and> fst (getAtomBounds uncached_mathfield atom_a) = Some 0
   \<and> rects (snd (getAtomBounds uncached_mathfield atom_a)) 0 = getNodeBounds node_a
   \<and> cache_get (snd (getAtomBounds uncached_mathfield atom_a)) ''a'' = None"
  by (simp add: getAtomBounds_unfold atom_a_def cache_get_def uncached_mathfield_def query_a
      falsy_string_def newRect_def)

text \<open>Lookups in the example mathfield whose two atoms are cached.\<close>

lemma cached_lookup_a: "getAtomBounds cached_mathfield atom_a = (Some 0, cached_mathfield)"
  by (simp add: getAtomBounds_unfold cached_mathfield_def atom_a_def cache_get_def falsy_string_def Let_def)

lemma cached_lookup_b: "getAtomBounds cached_mathfield atom_b = (Some 1, cached_mathfield)"
  by (simp add: getAtomBounds_unfold cached_mathfield_def atom_b_def cache_get_def falsy_string_def Let_def)

lemma cached_atoms: "model_at cached_mathfield 0 = Some atom_a" "model_at cached_mathfield 1 = Some atom_b"
  by (simp_all add: model_at_def cached_mathfield_def)

subsection \<open>Bounding rectangle of a range\<close>

lemma unionRect_idem: "unionRect a a = a"
  by (simp add: unionRect_def)

lemma unionRect_absorb:
  "unionRect a v = a \<Longrightarrow> unionRect (unionRect a w) v = unionRect a w"
  by (cases a; cases v; cases w) (auto simp: unionRect_def)

lemma rects_extendResult:
  "rects (extendResult r b mf) = (rects mf)(r := unionRect (rects mf r) (rects mf b))"
  by (cases "rects mf r"; cases "rects mf b")
    (auto simp: extendResult_def assignField_def Let_def unionRect_def fun_eq_iff)

lemma extendResult_frame:
  "field (extendResult r b mf) = field mf"
  "atoms (extendResult r b mf) = atoms mf"
  "atomBoundsCache (extendResult r b mf) = atomBoundsCache mf"
  "nextRef (extendResult r b mf) = nextRef mf"
  by (simp_all add: extendResult_def assignField_def Let_def)

lemma getAtomBounds_cases [case_names noid hit found missing]:
  obtains
    "falsy_string (atom_id a)" "getAtomBounds mf a = (None, mf)"
  | i r where "atom_id a = Some i" "\<not> falsy_string (atom_id a)" "cache_get mf i = Some r"
      "getAtomBounds mf a = (Some r, mf)"
  | i node mf1 where "atom_id a = Some i" "\<not> falsy_string (atom_id a)" "cache_get mf i = None"
      "querySelector (field mf) i = Some node"
      "getAtomBounds mf a = (Some (nextRef mf), mf1)"
      "rects mf1 = (rects mf)(nextRef mf := getNodeBounds node)"
      "nextRef mf1 = Suc (nextRef mf)"
      "atomBoundsCache mf1 = map_option (\<lambda>c. c(i \<mapsto> nextRef mf)) (atomBoundsCache mf)"
      "field mf1 = field mf" "atoms mf1 = atoms mf"
  | i mf1 where "atom_id a = Some i" "\<not> falsy_string (atom_id a)" "cache_get mf i = None"
      "querySelector (field mf) i = None"
      "getAtomBounds mf a = (None, mf1)"
      "rects mf1 = rects mf"
      "nextRef mf1 = nextRef mf"
      "atomBoundsCache mf1 = map_option (\<lambda>c. c(i := None)) (atomBoundsCache mf)"
      "field mf1 = field mf" "atoms mf1 = atoms mf"
proof (cases "falsy_string (atom_id a)")
  case True
  then show ?thesis
    using that(1) by (simp add: getAtomBounds_unfold)
next
  case nf: False
  then obtain i where i: "atom_id a = Some i"
    by (auto simp: falsy_string_def split: option.splits)
  show ?thesis
  proof (cases "cache_get mf i")
    case (Some r)
    then show ?thesis
      using that(2) [of i r] nf i by (simp add: getAtomBounds_unfold)
  next
    case miss: None
    show ?thesis
    proof (cases "querySelector (field mf) i")
      case None
      show ?thesis
        by (rule that(4) [of i "snd (getAtomBounds mf a)"])
          (use nf i miss None in
            \<open>auto simp: getAtomBounds_unfold Let_def split: option.splits\<close>)
    next
      case (Some node)
      show ?thesis
        by (rule that(3) [of i node "snd (getAtomBounds mf a)"])
          (use nf i miss Some in
            \<open>auto simp: getAtomBounds_unfold Let_def newRect_def split: option.splits\<close>)
    qed
  qed
qed

lemma boundsValue_resolveId:
  "boundsValue mf a = (if falsy_string (atom_id a) then None else resolveId mf (the (atom_id a)))"
  by (cases a mf rule: getAtomBounds_cases)
    (auto simp: boundsValue_def resolveId_def)

lemma loop_inv_init: "refs_allocated mf \<Longrightarrow> loop_inv mf mf None"
  by (auto simp: loop_inv_def resolveId_def split: option.splits)

lemma cache_get_upd:
  "atomBoundsCache mf1 = map_option (\<lambda>c. c(i := x)) (atomBoundsCache mf) \<Longrightarrow>
   cache_get mf1 j = (if atomBoundsCache mf = None then None else if j = i then x else cache_get mf j)"
  by (auto simp: cache_get_def split: option.splits)

lemma cache_get_None: "atomBoundsCache mf = None \<Longrightarrow> cache_get mf j = None"
  by (simp add: cache_get_def)

lemma loop_inv_getAtomBounds:
  assumes inv: "loop_inv mf0 mf result"
  obtains b mf1 where "getAtomBounds mf atom = (b, mf1)" and "loop_inv mf0 mf1 result"
    and "map_option (rects mf1) result = map_option (rects mf) result"
    and "case b of
           None \<Rightarrow> boundsValue mf0 atom = None
         | Some rb \<Rightarrow> rb < nextRef mf1
             \<and> (\<exists>v. boundsValue mf0 atom = Some v
                  \<and> (if result = Some rb then unionRect (rects mf1 rb) v = rects mf1 rb
                      else rects mf1 rb = v))"
proof (cases atom mf rule: getAtomBounds_cases)
  case noid
  show ?thesis
    by (rule that [of None mf]) (use noid inv in \<open>simp_all add: boundsValue_resolveId\<close>)
next
  case (hit i r)
  from inv have alloc: "r < nextRef mf"
    using hit(3) by (auto simp: loop_inv_def refs_allocated_def)
  from inv have "case cache_get mf i of
      Some rc \<Rightarrow> (\<exists>v. resolveId mf0 i = Some v
         \<and> (if result = Some rc then unionRect (rects mf rc) v = rects mf rc else rects mf rc = v))
    | None \<Rightarrow> resolveId mf0 i = map_option getNodeBounds (querySelector (field mf0) i)"
    unfolding loop_inv_def by blast
  then have "\<exists>v. resolveId mf0 i = Some v
      \<and> (if result = Some r then unionRect (rects mf r) v = rects mf r else rects mf r = v)"
    by (simp add: hit(3))
  then show ?thesis
    by (intro that [of "Some r" mf]) (use hit inv alloc in \<open>simp_all add: boundsValue_resolveId\<close>)
next
  case (found i node mf1)
  let ?n = "nextRef mf"
  from inv have wf: "\<And>j r. cache_get mf j = Some r \<Longrightarrow> r < ?n"
    and fld: "field mf = field mf0" and ats: "atoms mf = atoms mf0"
    and res: "\<And>r. result = Some r \<Longrightarrow> r < ?n"
    and ids: "\<And>j. case cache_get mf j of
        Some rc \<Rightarrow> (\<exists>v. resolveId mf0 j = Some v
           \<and> (if result = Some rc then unionRect (rects mf rc) v = rects mf rc else rects mf rc = v))
      | None \<Rightarrow> resolveId mf0 j = map_option getNodeBounds (querySelector (field mf0) j)"
    by (auto simp: loop_inv_def refs_allocated_def)
  have cg: "cache_get mf1 j
      = (if atomBoundsCache mf = None then None else if j = i then Some ?n else cache_get mf j)" for j
    by (rule cache_get_upd) (rule found(8))
  have r0: "resolveId mf0 i = Some (getNodeBounds node)"
    using ids [of i] found(3,4) fld by simp
  have nres: "result \<noteq> Some ?n"
    using res by auto
  have inv1: "loop_inv mf0 mf1 result"
    unfolding loop_inv_def
  proof (intro conjI allI impI)
    show "refs_allocated mf1"
      using wf by (auto simp: refs_allocated_def cg found(7) less_Suc_eq split: if_splits)
    show "field mf1 = field mf0" "atoms mf1 = atoms mf0"
      by (simp_all add: found fld ats)
    show "r < nextRef mf1" if "result = Some r" for r
      using res [OF that] by (simp add: found(7))
    show "case cache_get mf1 j of
        Some rc \<Rightarrow> (\<exists>v. resolveId mf0 j = Some v
           \<and> (if result = Some rc then unionRect (rects mf1 rc) v = rects mf1 rc
               else rects mf1 rc = v))
      | None \<Rightarrow> resolveId mf0 j = map_option getNodeBounds (querySelector (field mf0) j)" for j
    proof (cases "atomBoundsCache mf = None")
      case True
      then have "cache_get mf1 j = None" "cache_get mf j = None"
        by (simp_all add: cg cache_get_None)
      then show ?thesis
        using ids [of j] by simp
    next
      case False
      show ?thesis
      proof (cases "j = i")
        case True
        then show ?thesis
          using False nres r0 by (auto simp: cg found(6))
      next
        case ne: False
        show ?thesis
        proof (cases "cache_get mf j")
          case None
          then show ?thesis
            using ids [of j] False ne by (auto simp: cg)
        next
          case (Some rc)
          then have "rc \<noteq> ?n"
            using wf by auto
          then show ?thesis
            using ids [of j] Some False ne by (auto simp: cg found(6))
        qed
      qed
    qed
  qed
  have acc: "map_option (rects mf1) result = map_option (rects mf) result"
    using res by (cases result) (auto simp: found(6))
  show ?thesis
    by (rule that [of "Some ?n" mf1])
      (use found inv1 acc nres r0 in \<open>simp_all add: boundsValue_resolveId\<close>)
next
  case (missing i mf1)
  from inv have wf: "\<And>j r. cache_get mf j = Some r \<Longrightarrow> r < nextRef mf"
    and fld: "field mf = field mf0" and ats: "atoms mf = atoms mf0"
    and res: "\<And>r. result = Some r \<Longrightarrow> r < nextRef mf"
    and ids: "\<And>j. case cache_get mf j of
        Some rc \<Rightarrow> (\<exists>v. resolveId mf0 j = Some v
           \<and> (if result = Some rc then unionRect (rects mf rc) v = rects mf rc else rects mf rc = v))
      | None \<Rightarrow> resolveId mf0 j = map_option getNodeBounds (querySelector (field mf0) j)"
    by (auto simp: loop_inv_def refs_allocated_def)
  have cg: "cache_get mf1 j
      = (if atomBoundsCache mf = None then None else if j = i then None else cache_get mf j)" for j
    by (rule cache_get_upd) (rule missing(8))
  have same: "cache_get mf1 j = cache_get mf j" for j
    using missing(3) by (auto simp: cg cache_get_None)
  have r0: "resolveId mf0 i = None"
    using ids [of i] missing(3,4) fld by simp
  have inv1: "loop_inv mf0 mf1 result"
    using inv
    unfolding loop_inv_def refs_allocated_def same missing(6) missing(7) missing(9) missing(10)
    by this
  show ?thesis
    by (rule that [of None mf1])
      (use missing inv1 r0 in \<open>simp_all add: boundsValue_resolveId\<close>)
qed

lemma refs_allocated_extendResult:
  "refs_allocated (extendResult r b mf) = refs_allocated mf"
  by (simp add: refs_allocated_def cache_get_def extendResult_frame)

lemma cache_get_extendResult: "cache_get (extendResult r b mf) j = cache_get mf j"
  by (simp add: cache_get_def extendResult_frame)

lemma loop_inv_hit:
  "loop_inv mf0 mf result \<Longrightarrow> cache_get mf j = Some rc \<Longrightarrow>
   \<exists>v. resolveId mf0 j = Some v
     \<and> (if result = Some rc then unionRect (rects mf rc) v = rects mf rc else rects mf rc = v)"
  unfolding loop_inv_def by (elim conjE allE [of _ j]) simp

lemma loop_inv_miss:
  "loop_inv mf0 mf result \<Longrightarrow> cache_get mf j = None \<Longrightarrow>
   resolveId mf0 j = map_option getNodeBounds (querySelector (field mf0) j)"
  unfolding loop_inv_def by (elim conjE allE [of _ j]) simp

lemma loop_invI:
  assumes "refs_allocated mf" and "field mf = field mf0" and "atoms mf = atoms mf0"
    and "\<And>r. result = Some r \<Longrightarrow> r < nextRef mf"
    and "\<And>j rc. cache_get mf j = Some rc \<Longrightarrow>
           \<exists>v. resolveId mf0 j = Some v
             \<and> (if result = Some rc then unionRect (rects mf rc) v = rects mf rc
                 else rects mf rc = v)"
    and "\<And>j. cache_get mf j = None \<Longrightarrow>
           resolveId mf0 j = map_option getNodeBounds (querySelector (field mf0) j)"
  shows "loop_inv mf0 mf result"
  unfolding loop_inv_def
proof (intro conjI allI impI)
  fix j
  show "case cache_get mf j of
      None \<Rightarrow> resolveId mf0 j = map_option getNodeBounds (querySelector (field mf0) j)
    | Some rc \<Rightarrow> \<exists>v. resolveId mf0 j = Some v
        \<and> (if result = Some rc then unionRect (rects mf rc) v = rects mf rc else rects mf rc = v)"
    using assms(5) [of j] assms(6) [of j] by (cases "cache_get mf j") simp_all
qed (use assms in simp_all)

lemma loop_inv_frame:
  "loop_inv mf0 mf result \<Longrightarrow>
   refs_allocated mf \<and> field mf = field mf0 \<and> atoms mf = atoms mf0
   \<and> (\<forall>r. result = Some r \<longrightarrow> r < nextRef mf)"
  by (simp add: loop_inv_def)

lemma loop_iteration:
  assumes inv: "loop_inv mf0 mf result" and at: "model_at mf0 i = Some atom" and le: "i \<le> e"
  shows "\<exists>result' mf'.
           getRangeBoundingRect_loop i e result mf = getRangeBoundingRect_loop (i + 1) e result' mf'
           \<and> loop_inv mf0 mf' result'
           \<and> map_option (rects mf') result'
               = accumulate (map_option (rects mf) result) (boundsValue mf0 atom)"
proof -
  from inv have "atoms mf = atoms mf0"
    by (simp add: loop_inv_def)
  then have "model_at mf i = model_at mf0 i"
    by (simp add: model_at_def)
  with at have at': "model_at mf i = Some atom"
    by simp
  obtain b mf1 where g: "getAtomBounds mf atom = (b, mf1)" and inv1: "loop_inv mf0 mf1 result"
    and acc: "map_option (rects mf1) result = map_option (rects mf) result"
    and val: "case b of
           None \<Rightarrow> boundsValue mf0 atom = None
         | Some rb \<Rightarrow> rb < nextRef mf1
             \<and> (\<exists>v. boundsValue mf0 atom = Some v
                  \<and> (if result = Some rb then unionRect (rects mf1 rb) v = rects mf1 rb
                      else rects mf1 rb = v))"
    using loop_inv_getAtomBounds [OF inv, of atom] by blast
  show ?thesis
  proof (cases b)
    case None
    have "getRangeBoundingRect_loop i e result mf = getRangeBoundingRect_loop (i + 1) e result mf1"
      using le at' g None by (subst getRangeBoundingRect_loop.simps) simp
    moreover have "boundsValue mf0 atom = None"
      using val None by simp
    ultimately show ?thesis
      using inv1 acc
      by (intro exI [of _ result] exI [of _ mf1]) (simp add: accumulate_def)
  next
    case (Some rb)
    then obtain v where rb: "rb < nextRef mf1" and v: "boundsValue mf0 atom = Some v"
      and rv: "if result = Some rb then unionRect (rects mf1 rb) v = rects mf1 rb
               else rects mf1 rb = v"
      using val by auto
    show ?thesis
    proof (cases result)
      case None
      have step: "getRangeBoundingRect_loop i e result mf
          = getRangeBoundingRect_loop (i + 1) e (Some rb) mf1"
        using le at' g Some None by (subst getRangeBoundingRect_loop.simps) simp
      have "loop_inv mf0 mf1 (Some rb)"
      proof (rule loop_invI)
        fix j rc
        assume "cache_get mf1 j = Some rc"
        from loop_inv_hit [OF inv1 this]
        show "\<exists>v. resolveId mf0 j = Some v
            \<and> (if Some rb = Some rc then unionRect (rects mf1 rc) v = rects mf1 rc
                else rects mf1 rc = v)"
          by (auto simp: None unionRect_idem)
      next
        fix j
        assume "cache_get mf1 j = None"
        from loop_inv_miss [OF inv1 this]
        show "resolveId mf0 j = map_option getNodeBounds (querySelector (field mf0) j)" .
      qed (use loop_inv_frame [OF inv1] rb in simp_all)
      moreover have "map_option (rects mf1) (Some rb) = accumulate (map_option (rects mf) result) (Some v)"
        using rv None by (simp add: accumulate_def)
      ultimately show ?thesis
        using step v
        by (intro exI [of _ "Some rb"] exI [of _ mf1]) simp
    next
      case (Some r)
      let ?mf2 = "extendResult r rb mf1"
      have step: "getRangeBoundingRect_loop i e result mf
          = getRangeBoundingRect_loop (i + 1) e (Some r) ?mf2"
        using le at' g \<open>b = Some rb\<close> Some by (subst getRangeBoundingRect_loop.simps) simp
      have r1: "rects mf1 r = rects mf r"
        using acc Some by simp
      have new: "unionRect (rects mf1 r) (rects mf1 rb) = unionRect (rects mf r) v"
        using rv Some r1 by (auto simp: unionRect_idem split: if_splits)
      have inv2: "loop_inv mf0 ?mf2 (Some r)"
      proof (rule loop_invI)
        fix j rc
        assume "cache_get ?mf2 j = Some rc"
        then have "cache_get mf1 j = Some rc"
          by (simp add: cache_get_extendResult)
        from loop_inv_hit [OF inv1 this]
        show "\<exists>v. resolveId mf0 j = Some v
            \<and> (if Some r = Some rc then unionRect (rects ?mf2 rc) v = rects ?mf2 rc
                else rects ?mf2 rc = v)"
          using \<open>result = Some r\<close>
          by (auto simp: rects_extendResult unionRect_absorb)
      next
        fix j
        assume "cache_get ?mf2 j = None"
        then have "cache_get mf1 j = None"
          by (simp add: cache_get_extendResult)
        from loop_inv_miss [OF inv1 this]
        show "resolveId mf0 j = map_option getNodeBounds (querySelector (field mf0) j)" .
      qed (use loop_inv_frame [OF inv1] Some in
          \<open>simp_all add: refs_allocated_extendResult extendResult_frame\<close>)
      have "map_option (rects ?mf2) (Some r) = accumulate (map_option (rects mf) result) (Some v)"
        using new Some by (simp add: accumulate_def rects_extendResult)
      then show ?thesis
        using step inv2 v
        by (intro exI [of _ "Some r"] exI [of _ ?mf2]) simp
    qed
  qed
qed

lemma loop_returns:
  "loop_inv mf0 mf result \<Longrightarrow> offsets_valid mf0 i e \<Longrightarrow>
   \<exists>res' mf'. getRangeBoundingRect_loop i e result mf = Inr (res', mf')
     \<and> map_option (rects mf') res'
         = foldl accumulate (map_option (rects mf) result) (map (boundsAt mf0) [i..e])"
proof (induction "nat (e + 1 - i)" arbitrary: i result mf)
  case 0
  then have "e < i" by simp
  then show ?case
    by (subst getRangeBoundingRect_loop.simps) simp
next
  case (Suc n)
  then have le: "i \<le> e" by simp
  then obtain atom where at: "model_at mf0 i = Some atom"
    using Suc.prems(2) by (auto simp: offsets_valid_def)
  obtain result' mf' where
    step: "getRangeBoundingRect_loop i e result mf = getRangeBoundingRect_loop (i + 1) e result' mf'"
    and inv': "loop_inv mf0 mf' result'"
    and acc: "map_option (rects mf') result'
        = accumulate (map_option (rects mf) result) (boundsValue mf0 atom)"
    using loop_iteration [OF Suc.prems(1) at le] by blast
  have n: "n = nat (e + 1 - (i + 1))"
    using Suc.hyps(2) by simp
  have valid: "offsets_valid mf0 (i + 1) e"
    using Suc.prems(2) by (simp add: offsets_valid_def)
  have list: "[i..e] = i # [i + 1..e]"
    using le by (rule upto_rec1)
  have here: "boundsAt mf0 i = boundsValue mf0 atom"
    by (simp add: boundsAt_def at)
  from Suc.hyps(1) [OF n inv' valid] show ?case
    by (simp add: step acc list here)
qed

lemma accumulate_simps:
  "accumulate acc None = acc"
  "accumulate None (Some b) = Some b"
  "accumulate (Some a) (Some b) = Some (unionRect a b)"
  by (simp_all add: accumulate_def)

lemma foldl_accumulate_Some:
  "foldl accumulate (Some a) vs = Some (foldl unionRect a (List.map_filter (\<lambda>v. v) vs))"
proof (induction vs arbitrary: a)
  case Nil
  show ?case by simp
next
  case (Cons v vs)
  show ?case
  proof (cases v)
    case None
    then show ?thesis by (simp add: accumulate_simps Cons.IH)
  next
    case (Some b)
    then show ?thesis by (simp add: accumulate_simps Cons.IH)
  qed
qed

lemma foldl_accumulate_None:
  "(case foldl accumulate None vs of None \<Rightarrow> zeroRect | Some v \<Rightarrow> v)
   = unionAll (List.map_filter (\<lambda>v. v) vs)"
proof (induction vs)
  case Nil
  show ?case by simp
next
  case (Cons v vs)
  show ?case
  proof (cases v)
    case None
    then show ?thesis
      using Cons.IH by (simp add: accumulate_simps)
  next
    case (Some b)
    then show ?thesis
      by (simp add: accumulate_simps foldl_accumulate_Some)
  qed
qed

lemma map_filter_map: "List.map_filter (\<lambda>v. v) (map f xs) = List.map_filter f xs"
  by (induction xs) (auto split: option.splits)

lemma getRangeBoundingRect_value:
  assumes "refs_allocated mf" and "offsets_valid mf start endOffset"
  shows "\<exists>r mf'. getRangeBoundingRect mf (start, endOffset) = Inr (r, mf')
           \<and> rects mf' r = unionAll (resolvableBounds mf start endOffset)"
proof -
  obtain res' mf' where
    l: "getRangeBoundingRect_loop start endOffset None mf = Inr (res', mf')"
    and v: "map_option (rects mf') res'
        = foldl accumulate None (map (boundsAt mf) [start..endOffset])"
    using loop_returns [OF loop_inv_init [OF assms(1)] assms(2)] by auto
  have u: "(case map_option (rects mf') res' of None \<Rightarrow> zeroRect | Some v \<Rightarrow> v)
      = unionAll (resolvableBounds mf start endOffset)"
    unfolding v by (simp add: foldl_accumulate_None map_filter_map resolvableBounds_def)
  show ?thesis
  proof (cases res')
    case None
    then show ?thesis
      using l u by (simp add: newRect_def)
  next
    case (Some r)
    then show ?thesis
      using l u by simp
  qed
qed

lemma getRangeBoundingRect_empty:
  assumes "endOffset < start"
  shows "\<exists>r mf'. getRangeBoundingRect mf (start, endOffset) = Inr (r, mf') \<and> rects mf' r = zeroRect"
proof -
  have "getRangeBoundingRect_loop start endOffset None mf = Inr (None, mf)"
    using assms by (subst getRangeBoundingRect_loop.simps) simp
  then show ?thesis
    by (simp add: newRect_def)
qed

lemma unionRect_fields:
  "top (unionRect a b) = min (top a) (top b)"
  "bottom (unionRect a b) = max (bottom a) (bottom b)"
  "left (unionRect a b) = min (left a) (left b)"
  "right (unionRect a b) = max (right a) (right b)"
  by (simp_all add: unionRect_def)

lemma foldl_unionRect_fields:
  "top (foldl unionRect a rs) = Min (insert (top a) (set (map top rs)))
   \<and> bottom (foldl unionRect a rs) = Max (insert (bottom a) (set (map bottom rs)))
   \<and> left (foldl unionRect a rs) = Min (insert (left a) (set (map left rs)))
   \<and> right (foldl unionRect a rs) = Max (insert (right a) (set (map right rs)))"
proof (induction rs arbitrary: a)
  case Nil
  show ?case by simp
next
  case (Cons r rs)
  have m: "Min (insert (min x y) A) = Min (insert x (insert y A))"
    "Max (insert (max x y) A) = Max (insert x (insert y A))"
    if "finite A" for x y :: real and A
    using that by (cases "A = {}"; simp add: min.assoc max.assoc)+
  show ?case
    using Cons.IH [of "unionRect a r"] by (simp add: unionRect_fields m)
qed

text \<open>
  For a range \<open>[start, end]\<close> whose offsets all have an atom, \<open>getRangeBoundingRect\<close>
  returns one rectangle: the union of the bounds of every atom from \<open>start\<close> to \<open>end\<close>
  inclusive whose bounds are resolvable, with no grouping by branch.  The union has the
  minimum of the tops and of the lefts and the maximum of the bottoms and of the rights.
  For an empty range, and when no atom of the range has resolvable bounds, the rectangle
  is \<open>{top: 0, bottom: 0, left: 0, right: 0}\<close>.  The bounds of an atom are those that
  \<open>getAtomBounds\<close> resolves in the state in which the call starts; the references of
  the cache are allocated ones.
\<close>

lemma getRangeBoundingRect_union:
  "(refs_allocated mf \<and> offsets_valid mf start endOffset \<longrightarrow>
      (\<exists>r mf'. getRangeBoundingRect mf (start, endOffset) = Inr (r, mf')
         \<and> rects mf' r = unionAll (resolvableBounds mf start endOffset)))
   \<and> (endOffset < start \<longrightarrow>
        (\<exists>r mf'. getRangeBoundingRect mf (start, endOffset) = Inr (r, mf')
           \<and> rects mf' r = \<lparr>top = 0, bottom = 0, left = 0, right = 0\<rparr>))
   \<and> (refs_allocated mf \<and> offsets_valid mf start endOffset
        \<and> resolvableBounds mf start endOffset = [] \<longrightarrow>
        (\<exists>r mf'. getRangeBoundingRect mf (start, endOffset) = Inr (r, mf')
           \<and> rects mf' r = \<lparr>top = 0, bottom = 0, left = 0, right = 0\<rparr>))
   \<and> (rs \<noteq> [] \<longrightarrow>
        top (unionAll rs) = Min (set (map top rs))
        \<and> bottom (unionAll rs) = Max (set (map bottom rs))
        \<and> left (unionAll rs) = Min (set (map left rs))
        \<and> right (unionAll rs) = Max (set (map right rs)))"
proof (intro conjI impI)
  assume "refs_allocated mf \<and> offsets_valid mf start endOffset"
  then show "\<exists>r mf'. getRangeBoundingRect mf (start, endOffset) = Inr (r, mf')
      \<and> rects mf' r = unionAll (resolvableBounds mf start endOffset)"
    using getRangeBoundingRect_value by blast
next
  assume "endOffset < start"
  then show "\<exists>r mf'. getRangeBoundingRect mf (start, endOffset) = Inr (r, mf')
      \<and> rects mf' r = \<lparr>top = 0, bottom = 0, left = 0, right = 0\<rparr>"
    using getRangeBoundingRect_empty [of endOffset start mf] by (simp add: zeroRect_def)
next
  assume "refs_allocated mf \<and> offsets_valid mf start endOffset
    \<and> resolvableBounds mf start endOffset = []"
  then show "\<exists>r mf'. getRangeBoundingRect mf (start, endOffset) = Inr (r, mf')
      \<and> rects mf' r = \<lparr>top = 0, bottom = 0, left = 0, right = 0\<rparr>"
    using getRangeBoundingRect_value [of mf start endOffset] by (simp add: zeroRect_def)
next
  assume "rs \<noteq> []"
  then obtain a rest where rs: "rs = a # rest"
    by (cases rs) auto
  show "top (unionAll rs) = Min (set (map top rs))"
    "bottom (unionAll rs) = Max (set (map bottom rs))"
    "left (unionAll rs) = Min (set (map left rs))"
    "right (unionAll rs) = Max (set (map right rs))"
    using foldl_unionRect_fields [of a rest] by (simp_all add: rs)
qed

lemma getRangeBoundingRect_union_example:
  "refs_allocated cached_mathfield \<and> offsets_valid cached_mathfield 0 1
   \<and> resolvableBounds cached_mathfield 0 1
       = [\<lparr>top = 0, bottom = 10, left = 0, right = 10\<rparr>, \<lparr>top = 5, bottom = 20, left = 5, right = 20\<rparr>]
   \<and> (\<exists>r mf'. getRangeBoundingRect cached_mathfield (0, 1) = Inr (r, mf')
         \<and> rects mf' r = \<lparr>top = 0, bottom = 20, left = 0, right = 20\<rparr>)
   \<and> (\<exists>r mf'. getRangeBoundingRect cached_mathfield (1, 0) = Inr (r, mf')
         \<and> rects mf' r = \<lparr>top = 0, bottom = 0, left = 0, right = 0\<rparr>)
   \<and> refs_allocated unresolvable_mathfield \<and> offsets_valid unresolvable_mathfield 0 1
   \<and> resolvableBounds unresolvable_mathfield 0 1 = []
   \<and> (\<exists>r mf'. getRangeBoundingRect unresolvable_mathfield (0, 1) = Inr (r, mf')
         \<and> rects mf' r = \<lparr>top = 0, bottom = 0, left = 0, right = 0\<rparr>)
   \<and> top (unionAll [\<lparr>top = 0, bottom = 10, left = 0, right = 10\<rparr>,
                     \<lparr>top = 5, bottom = 20, left = 5, right = 20\<rparr>]) = 0"
proof -
  have w: "refs_allocated cached_mathfield"
    by (simp add: refs_allocated_def cache_get_def cached_mathfield_def)
  have o: "offsets_valid cached_mathfield 0 1"
    by (simp add: offsets_valid_def model_at_def cached_mathfield_def)
  have l: "[0..1::int] = [0, 1]"
    by (simp add: upto_rec1)
  have b: "boundsAt cached_mathfield 0 = Some \<lparr>top = 0, bottom = 10, left = 0, right = 10\<rparr>"
    "boundsAt cached_mathfield 1 = Some \<lparr>top = 5, bottom = 20, left = 5, right = 20\<rparr>"
    by (simp_all add: boundsAt_def boundsValue_def cached_atoms cached_lookup_a cached_lookup_b)
      (simp_all add: cached_mathfield_def)
  have r: "resolvableBounds cached_mathfield 0 1
      = [\<lparr>top = 0, bottom = 10, left = 0, right = 10\<rparr>, \<lparr>top = 5, bottom = 20, left = 5, right = 20\<rparr>]"
    by (simp add: resolvableBounds_def l b)
  have u: "unionAll [\<lparr>top = 0, bottom = 10, left = 0, right = 10\<rparr>,
      \<lparr>top = 5, bottom = 20, left = 5, right = 20\<rparr>] = \<lparr>top = 0, bottom = 20, left = 0, right = 20\<rparr>"
    by (simp add: unionRect_def)
  have w': "refs_allocated unresolvable_mathfield"
    by (simp add: refs_allocated_def cache_get_def unresolvable_mathfield_def)
  have o': "offsets_valid unresolvable_mathfield 0 1"
    by (simp add: offsets_valid_def model_at_def unresolvable_mathfield_def)
  have b': "boundsAt unresolvable_mathfield 0 = None" "boundsAt unresolvable_mathfield 1 = None"
    by (simp_all add: boundsAt_def boundsValue_def model_at_def unresolvable_mathfield_def
        getAtomBounds_unfold falsy_string_def atom_without_id_def atom_c_def cache_get_def
        query_c)
  have r': "resolvableBounds unresolvable_mathfield 0 1 = []"
    by (simp add: resolvableBounds_def l b')
  have 4: "\<exists>r mf'. getRangeBoundingRect unresolvable_mathfield (0, 1) = Inr (r, mf')
      \<and> rects mf' r = \<lparr>top = 0, bottom = 0, left = 0, right = 0\<rparr>"
    using getRangeBoundingRect_union
      [where mf = unresolvable_mathfield and start = 0 and endOffset = 1 and rs = "[]",
        THEN conjunct2, THEN conjunct2, THEN conjunct1] w' o' r'
    by blast
  note t = getRangeBoundingRect_union [where mf = cached_mathfield]
  have 1: "\<exists>r mf'. getRangeBoundingRect cached_mathfield (0, 1) = Inr (r, mf')
      \<and> rects mf' r = \<lparr>top = 0, bottom = 20, left = 0, right = 20\<rparr>"
    using t [where start = 0 and endOffset = 1 and rs = "[]", THEN conjunct1] w o
    unfolding r u by blast
  have 2: "\<exists>r mf'. getRangeBoundingRect cached_mathfield (1, 0) = Inr (r, mf')
      \<and> rects mf' r = \<lparr>top = 0, bottom = 0, left = 0, right = 0\<rparr>"
    using t [where start = 1 and endOffset = 0 and rs = "[]", THEN conjunct2, THEN conjunct1]
    by simp
  have 3: "top (unionAll [\<lparr>top = 0, bottom = 10, left = 0, right = 10\<rparr>,
      \<lparr>top = 5, bottom = 20, left = 5, right = 20\<rparr>]) = 0"
    using t [where start = 0 and endOffset = 1
        and rs = "[\<lparr>top = 0, bottom = 10, left = 0, right = 10\<rparr>,
          \<lparr>top = 5, bottom = 20, left = 5, right = 20\<rparr>]",
        THEN conjunct2, THEN conjunct2, THEN conjunct2]
    by simp
  show ?thesis
    using w o r 1 2 3 w' o' r' 4 by blast
qed

text \<open>
  Claim C7 says that for every range \<open>getRangeBoundingRect\<close> returns the union of the
  bounds of the atoms of the range whose bounds are resolvable, and the rectangle
  \<open>{top: 0, bottom: 0, left: 0, right: 0}\<close> when there is none.  The code does not keep
  to it for a range with an offset that has no atom: \<open>mf.model.at(i)\<close> is
  \<open>undefined\<close> there, and \<open>getAtomBounds\<close> reads \<open>atom.id\<close> with no test of the
  atom, a test that \<open>getElementInfo\<close> and \<open>getHref\<close> make on the result of
  \<open>model.at\<close>.  On a model of two atoms with cached bounds, the range \<open>[0, 2]\<close>
  should give the union of both rectangles and the range \<open>[5, 7]\<close>, which has no atom
  with resolvable bounds, the zero rectangle; both calls throw a \<open>TypeError\<close>.
\<close>

theorem getRangeBoundingRect_missing_atom:
  "resolvableBounds cached_mathfield 0 2
     = [\<lparr>top = 0, bottom = 10, left = 0, right = 10\<rparr>, \<lparr>top = 5, bottom = 20, left = 5, right = 20\<rparr>]
   \<and> getRangeBoundingRect cached_mathfield (0, 2) = Inl TypeError
   \<and> resolvableBounds cached_mathfield 5 7 = []
   \<and> getRangeBoundingRect cached_mathfield (5, 7) = Inl TypeError"
proof -
  have l: "[0..2::int] = [0, 1, 2]" "[5..7::int] = [5, 6, 7]"
    by (simp_all add: upto_rec1)
  have b: "boundsAt cached_mathfield 0 = Some \<lparr>top = 0, bottom = 10, left = 0, right = 10\<rparr>"
    "boundsAt cached_mathfield 1 = Some \<lparr>top = 5, bottom = 20, left = 5, right = 20\<rparr>"
    by (simp_all add: boundsAt_def boundsValue_def cached_atoms cached_lookup_a cached_lookup_b)
      (simp_all add: cached_mathfield_def)
  have n: "model_at cached_mathfield 2 = None" "model_at cached_mathfield 5 = None"
    "model_at cached_mathfield 6 = None" "model_at cached_mathfield 7 = None"
    by (simp_all add: model_at_def cached_mathfield_def)
  have b': "boundsAt cached_mathfield 2 = None" "boundsAt cached_mathfield 5 = None"
    "boundsAt cached_mathfield 6 = None" "boundsAt cached_mathfield 7 = None"
    by (simp_all add: boundsAt_def n)
  have r: "resolvableBounds cached_mathfield 0 2
      = [\<lparr>top = 0, bottom = 10, left = 0, right = 10\<rparr>, \<lparr>top = 5, bottom = 20, left = 5, right = 20\<rparr>]"
    "resolvableBounds cached_mathfield 5 7 = []"
    by (simp_all add: resolvableBounds_def l b b')
  have m: "model_at (extendResult r b cached_mathfield) i = model_at cached_mathfield i" for r b i
    by (simp add: model_at_def extendResult_frame)
  have t: "getRangeBoundingRect_loop 0 2 None cached_mathfield = Inl TypeError"
    by (simp add: getRangeBoundingRect_loop.simps [of 0] getRangeBoundingRect_loop.simps [of 1]
        getRangeBoundingRect_loop.simps [of 2] cached_lookup_a cached_lookup_b cached_atoms m n)
  have u: "getRangeBoundingRect_loop 5 7 None cached_mathfield = Inl TypeError"
    by (simp add: getRangeBoundingRect_loop.simps [of 5] n)
  show ?thesis
    using r t u by simp
qed

subsection \<open>Cached rectangles under bounds queries\<close>

text \<open>
  \<open>getAtomBounds\<close> by itself leaves every cache entry and its rectangle as they were.
\<close>

lemma getAtomBounds_keeps_cached:
  assumes "refs_allocated mf" and "cache_get mf j = Some r" and "getAtomBounds mf a = (b, mf')"
  shows "cache_get mf' j = Some r \<and> rects mf' r = rects mf r"
proof (cases a mf rule: getAtomBounds_cases)
  case noid
  then show ?thesis using assms by simp
next
  case (hit i r')
  then show ?thesis using assms by simp
next
  case (found i node mf1)
  have lt: "r < nextRef mf"
    using assms(1,2) by (auto simp: refs_allocated_def)
  have "atomBoundsCache mf \<noteq> None" "j \<noteq> i"
    using assms(2) found(3) by (auto simp: cache_get_def split: option.splits)
  then have cg: "cache_get mf1 j = cache_get mf j"
    using cache_get_upd [OF found(8), of j] by auto
  have "mf' = mf1"
    using assms(3) found(5) by simp
  then show ?thesis
    using cg assms(2) found(6) lt by simp
next
  case (missing i mf1)
  have "atomBoundsCache mf \<noteq> None" "j \<noteq> i"
    using assms(2) missing(3) by (auto simp: cache_get_def split: option.splits)
  then have cg: "cache_get mf1 j = cache_get mf j"
    using cache_get_upd [OF missing(8), of j] by auto
  have "mf' = mf1"
    using assms(3) missing(5) by simp
  then show ?thesis
    using cg assms(2) missing(6) by simp
qed

text \<open>
  Claim C3 says that, for an atom whose rectangle is in the bounds cache, repeated
  bounds queries return the identical rectangle, and that no bounds query changes the
  value of an existing cache entry.  \<open>getRangeBoundingRect\<close> does not keep to it: its
  \<open>result\<close> is the object that \<open>getAtomBounds\<close> returned for the first atom of the
  range, which is the cached object, and the loop assigns the union to its fields.  With
  two cached atoms, the entry of the first one holds the union of both rectangles
  afterwards, and the next query for that atom returns the union.
\<close>

theorem getRangeBoundingRect_changes_cached_rect:
  "rects cached_mathfield 0 = \<lparr>top = 0, bottom = 10, left = 0, right = 10\<rparr>
   \<and> getAtomBounds cached_mathfield atom_a = (Some 0, cached_mathfield)
   \<and> (case getRangeBoundingRect cached_mathfield (0, 1) of
         Inl e \<Rightarrow> False
       | Inr (r, mf) \<Rightarrow>
           fst (getAtomBounds mf atom_a) = Some 0
           \<and> rects mf 0 = \<lparr>top = 0, bottom = 20, left = 0, right = 20\<rparr>)"
proof -
  have l: "getRangeBoundingRect_loop 0 1 None cached_mathfield
           = Inr (Some 0, extendResult 0 1 cached_mathfield)"
    by (simp add: getRangeBoundingRect_loop.simps [of 0] getRangeBoundingRect_loop.simps [of 1]
        getRangeBoundingRect_loop.simps [of 2] cached_lookup_a cached_lookup_b cached_atoms)
  have e: "rects (extendResult 0 1 cached_mathfield) 0
           = \<lparr>top = 0, bottom = 20, left = 0, right = 20\<rparr>"
    by (simp add: extendResult_def assignField_def Let_def cached_mathfield_def)
  have g: "fst (getAtomBounds (extendResult 0 1 cached_mathfield) atom_a) = Some 0"
    by (simp add: getAtomBounds_unfold extendResult_def assignField_def Let_def cached_mathfield_def
        atom_a_def cache_get_def falsy_string_def)
  have r: "rects cached_mathfield 0 = \<lparr>top = 0, bottom = 10, left = 0, right = 10\<rparr>"
    by (simp add: cached_mathfield_def)
  show ?thesis
    using l e g r cached_lookup_a by simp
qed

subsection \<open>Custom data of an element\<close>

lemma assignData_Nil: "assignData d [] = d"
  by (simp add: assignData_def)

lemma assignData_single:
  "assignData d [(k, v)]
   = Some (let m = (case d of None \<Rightarrow> Map.empty | Some x \<Rightarrow> x)
           in if k = ''__proto__'' then m else m(k \<mapsto> v))"
  by (auto simp: assignData_def stored_pairs_def Let_def map_add_def fun_eq_iff
      split: option.splits)

lemma assignData_append: "assignData d (xs @ ys) = assignData (assignData d xs) ys"
  by (auto simp: assignData_def stored_pairs_def split: option.splits)

lemma data_setData:
  "data (setData k v r) = assignData (data r) [(k, v)]"
  by (simp add: setData_def assignData_single Let_def)

lemma data_addEntry:
  "data (addEntry r e) = assignData (data r) (List.map_filter parseEntry [e])"
  by (auto simp: addEntry_def parseEntry_def normalizeKey_def Let_def data_setData
      List.map_filter_simps assignData_Nil split: option.splits)

lemma idInfo_addEntry: "idInfo (addEntry r e) = idInfo r"
  by (auto simp: addEntry_def setData_def Let_def split: option.splits)

lemma map_filter_snoc:
  "List.map_filter f (xs @ [x]) = List.map_filter f xs @ List.map_filter f [x]"
  by (simp add: List.map_filter_def)

lemma data_foldl_addEntry:
  "data (foldl addEntry r es) = assignData (data r) (List.map_filter parseEntry es)"
proof (induction es rule: rev_induct)
  case Nil
  show ?case by (simp add: List.map_filter_simps assignData_Nil)
next
  case (snoc e es)
  show ?case
    by (simp add: data_addEntry snoc.IH map_filter_snoc assignData_append)
qed

lemma map_filter_append:
  "List.map_filter f (xs @ ys) = List.map_filter f xs @ List.map_filter f ys"
  by (simp add: List.map_filter_def)

lemma chain_pairs_Cons:
  "chain_pairs (a # chain) = List.map_filter parseEntry (htmlData_entries a) @ chain_pairs chain"
  by (simp add: chain_pairs_def map_filter_append)

lemma data_getElementInfo_loop:
  "data (getElementInfo_loop a r) = assignData (data r) (chain_pairs (ancestors a))"
proof (induction a r rule: getElementInfo_loop.induct)
  case (1 r)
  show ?case by (simp add: chain_pairs_def List.map_filter_simps assignData_Nil)
next
  case (2 a r)
  define r1 where "r1 =
    (if command a = htmlData_command then
       (case args a of
          None \<Rightarrow> r
        | Some xs \<Rightarrow>
            (case first_arg xs of
               Some (StringArg s) \<Rightarrow> foldl addEntry r (split_comma s)
             | _ \<Rightarrow> r))
     else r)"
  define r2 where "r2 =
    (if command a = htmlId_command \<or> command a = cssId_command then
       (if falsy_string (idInfo r1) then
          (case args a of
             None \<Rightarrow> r1
           | Some xs \<Rightarrow>
               (case first_arg xs of
                  Some (StringArg s) \<Rightarrow> r1\<lparr>idInfo := Some s\<rparr>
                | _ \<Rightarrow> r1))
        else r1)
     else r1)"
  have step: "getElementInfo_loop (Some a) r = getElementInfo_loop (parent a) r2"
    by (simp only: getElementInfo_loop.simps Let_def r1_def r2_def)
  have d1: "data r1 = assignData (data r) (List.map_filter parseEntry (htmlData_entries a))"
    by (auto simp: r1_def htmlData_entries_def data_foldl_addEntry List.map_filter_simps
        assignData_Nil split: option.splits Argument.splits)
  have d2: "data r2 = data r1"
    by (auto simp: r2_def split: option.splits Argument.splits)
  have "data (getElementInfo_loop (parent a) r2)
        = assignData (data r2) (chain_pairs (ancestors (parent a)))"
    by (rule "2.IH" [OF r1_def r2_def])
  then show ?case
    unfolding step by (simp add: d1 d2 ancestors_Some chain_pairs_Cons assignData_append)
qed

lemma regex_match_key_value:
  assumes "k \<noteq> []" and "CHR ''='' \<notin> set k" and "v \<noteq> []" and "\<not> list_ex lineTerminator v"
  shows "regex_match (k @ CHR ''='' # v) = Some (k, v)"
proof -
  obtain c cs where k: "k = c # cs"
    using assms(1) by (cases k) auto
  have t: "takeWhile (\<lambda>c. c \<noteq> CHR ''='') (k @ CHR ''='' # v) = k"
    using assms(2) by (induction k) auto
  have d: "dropWhile (\<lambda>c. c \<noteq> CHR ''='') (k @ CHR ''='' # v) = CHR ''='' # v"
    using assms(2) by (induction k) auto
  have "match_here (k @ CHR ''='' # v) = Some (k, v)"
    unfolding match_here_def t d using assms by (simp add: Let_def)
  then show ?thesis
    by (simp add: k)
qed

lemma regex_match_no_equals: "CHR ''='' \<notin> set e \<Longrightarrow> regex_match e = None"
proof (induction e)
  case Nil
  show ?case by simp
next
  case (Cons c cs)
  then have "dropWhile (\<lambda>c. c \<noteq> CHR ''='') (c # cs) = []"
    by (auto simp: dropWhile_eq_Nil_conv)
  then have "match_here (c # cs) = None"
    unfolding match_here_def by (simp only: Let_def list.case)
  with Cons show ?case by simp
qed

lemma replaceSpaces_no_space: "CHR '' '' \<notin> set (replaceSpaces s)"
  by (induction s) (auto simp: replaceSpaces_def)

lemma parseEntry_key: "parseEntry e = Some (k, v) \<Longrightarrow> k \<noteq> [] \<and> CHR '' '' \<notin> set k"
  by (auto simp: parseEntry_def normalizeKey_def replaceSpaces_no_space
      split: option.splits if_splits)

lemma data_getElementInfo:
  assumes "model_at mf offset = Some atom"
  shows "\<exists>info mf'. getElementInfo serialize (Some mf) offset = (Some info, Some mf')
           \<and> data info = assignData None (chain_pairs (ancestors (Some atom)))"
proof -
  obtain b mf1 where g: "getAtomBounds mf atom = (b, mf1)"
    by (cases "getAtomBounds mf atom")
  show ?thesis
    using assms
    by (cases b)
      (auto simp: getElementInfo_def g Let_def data_getElementInfo_loop
        simp del: getElementInfo_loop.simps)
qed

text \<open>
  Claim C8, amended.  For an offset that resolves to an atom, \<open>getElementInfo\<close> returns
  the data collected from every custom-data (\<open>\htmlData\<close>) command on the chain from
  the atom to the root, not only from the nearest one.  The first string argument of
  each command is split on commas; a token \<open>key=value\<close> gives the key with the value, a
  token without \<open>=\<close> gives the key with \<open>undefined\<close>; keys are trimmed, have hyphens
  for spaces, and empty keys are skipped.  The pairs are assigned in the order of the
  walk, so for a key that occurs twice the later pair stands, be it later in the same
  command or in a command further from the atom; the key \<open>__proto__\<close> is not stored.
  The data are absent when there is no pair.  The tokens of \<open>"a=1, b , c=2"\<close> give
  \<open>a\<close> with \<open>"1"\<close>, \<open>b\<close> with \<open>undefined\<close> and \<open>c\<close> with \<open>"2"\<close>.
\<close>

theorem getElementInfo_data:
  "(model_at mf offset = Some atom \<longrightarrow>
      (\<exists>info mf'. getElementInfo serialize (Some mf) offset = (Some info, Some mf')
         \<and> (chain_pairs (ancestors (Some atom)) = [] \<longrightarrow> data info = None)
         \<and> (chain_pairs (ancestors (Some atom)) \<noteq> [] \<longrightarrow>
              data info
                = Some (map_of (rev (stored_pairs (chain_pairs (ancestors (Some atom)))))))))
   \<and> (k \<noteq> [] \<and> CHR ''='' \<notin> set k \<and> v \<noteq> [] \<and> \<not> list_ex lineTerminator v \<longrightarrow>
        parseEntry (k @ CHR ''='' # v)
          = (if normalizeKey k = [] then None else Some (normalizeKey k, Some v)))
   \<and> (CHR ''='' \<notin> set e \<longrightarrow>
        parseEntry e = (if normalizeKey e = [] then None else Some (normalizeKey e, None)))
   \<and> (parseEntry e = Some (key, val) \<longrightarrow> key \<noteq> [] \<and> CHR '' '' \<notin> set key)
   \<and> map parseEntry (split_comma ''a=1, b , c=2'')
       = [Some (''a'', Some ''1''), Some (''b'', None), Some (''c'', Some ''2'')]"
proof (intro conjI impI)
  assume a: "model_at mf offset = Some atom"
  let ?kvs = "chain_pairs (ancestors (Some atom))"
  obtain info mf' where g: "getElementInfo serialize (Some mf) offset = (Some info, Some mf')"
    and d: "data info = assignData None ?kvs"
    using data_getElementInfo [OF a] by blast
  have n: "?kvs = [] \<longrightarrow> data info = None"
    by (simp add: d assignData_def)
  have s: "?kvs \<noteq> [] \<longrightarrow> data info = Some (map_of (rev (stored_pairs ?kvs)))"
    by (simp add: d assignData_def)
  show "\<exists>info mf'. getElementInfo serialize (Some mf) offset = (Some info, Some mf')
      \<and> (?kvs = [] \<longrightarrow> data info = None)
      \<and> (?kvs \<noteq> [] \<longrightarrow> data info = Some (map_of (rev (stored_pairs ?kvs))))"
    using g n s by blast
next
  assume "k \<noteq> [] \<and> CHR ''='' \<notin> set k \<and> v \<noteq> [] \<and> \<not> list_ex lineTerminator v"
  then have "regex_match (k @ CHR ''='' # v) = Some (k, v)"
    by (simp add: regex_match_key_value)
  then show "parseEntry (k @ CHR ''='' # v)
      = (if normalizeKey k = [] then None else Some (normalizeKey k, Some v))"
    by (simp add: parseEntry_def)
next
  assume "CHR ''='' \<notin> set e"
  then have "regex_match e = None"
    by (rule regex_match_no_equals)
  then show "parseEntry e = (if normalizeKey e = [] then None else Some (normalizeKey e, None))"
    by (simp add: parseEntry_def)
next
  assume "parseEntry e = Some (key, val)"
  then show "key \<noteq> []" and "CHR '' '' \<notin> set key"
    using parseEntry_key by blast+
next
  show "map parseEntry (split_comma ''a=1, b , c=2'')
      = [Some (''a'', Some ''1''), Some (''b'', None), Some (''c'', Some ''2'')]"
    by code_simp
qed

theorem getElementInfo_data_witness:
  "model_at data_mathfield 0 = Some data_atom
   \<and> (\<exists>info mf'. getElementInfo (\<lambda>a. []) (Some data_mathfield) 0 = (Some info, Some mf')
         \<and> data info = Some [''a'' \<mapsto> Some ''1'', ''b'' \<mapsto> None, ''c'' \<mapsto> Some ''2''])
   \<and> model_at proto_mathfield 0 = Some proto_atom
   \<and> (\<exists>info mf'. getElementInfo (\<lambda>a. []) (Some proto_mathfield) 0 = (Some info, Some mf')
         \<and> data info = Some [''q'' \<mapsto> Some ''2''])
   \<and> parseEntry ''my key=1'' = Some (''my-key'', Some ''1'')
   \<and> parseEntry '' b '' = Some (''b'', None)"
proof -
  have a: "model_at data_mathfield 0 = Some data_atom"
    by (simp add: model_at_def data_mathfield_def)
  have c: "chain_pairs (ancestors (Some data_atom))
           = [(''a'', Some ''1''), (''b'', None), (''c'', Some ''2'')]"
    by code_simp
  have a': "model_at proto_mathfield 0 = Some proto_atom"
    by (simp add: model_at_def proto_mathfield_def)
  have c': "chain_pairs (ancestors (Some proto_atom))
           = [(''__proto__'', Some ''1''), (''q'', Some ''2'')]"
    by code_simp
  have n: "normalizeKey ''my key'' = ''my-key''" "normalizeKey '' b '' = ''b''"
    by code_simp+
  have h: "''my key'' \<noteq> [] \<and> CHR ''='' \<notin> set ''my key'' \<and> ''1'' \<noteq> []
      \<and> \<not> list_ex lineTerminator ''1''"
    by (simp add: lineTerminator_def)
  have h': "CHR ''='' \<notin> set '' b ''"
    by simp
  note t = getElementInfo_data
    [where mf = data_mathfield and offset = 0 and atom = data_atom and serialize = "\<lambda>a. []"
      and k = "''my key''" and v = "''1''" and e = "'' b ''"]
  have 1: "\<exists>info mf'. getElementInfo (\<lambda>a. []) (Some data_mathfield) 0 = (Some info, Some mf')
      \<and> data info = Some [''a'' \<mapsto> Some ''1'', ''b'' \<mapsto> None, ''c'' \<mapsto> Some ''2'']"
    using t [THEN conjunct1] a unfolding c by (simp add: stored_pairs_def)
  have 2: "parseEntry ''my key=1'' = Some (''my-key'', Some ''1'')"
    using t [THEN conjunct2, THEN conjunct1] h by (simp add: n)
  have 3: "parseEntry '' b '' = Some (''b'', None)"
    using t [THEN conjunct2, THEN conjunct2, THEN conjunct1] h' by (simp add: n)
  have 4: "\<exists>info mf'. getElementInfo (\<lambda>a. []) (Some proto_mathfield) 0 = (Some info, Some mf')
      \<and> data info = Some [''q'' \<mapsto> Some ''2'']"
    using getElementInfo_data
      [where mf = proto_mathfield and offset = 0 and atom = proto_atom and serialize = "\<lambda>a. []",
        THEN conjunct1] a'
    unfolding c' by (simp add: stored_pairs_def)
  show ?thesis
    using a 1 2 3 a' 4 by blast
qed

text \<open>
  The claim as stated, that the data are those of the nearest enclosing command, fails
  for an atom inside two nested commands: the nearest one says \<open>k=inner,y=2\<close>, the
  outer one \<open>k=outer,z\<close>, and the result has \<open>k\<close> from the outer command and \<open>z\<close>
  as well.
\<close>

theorem getElementInfo_merges_nested_data:
  "model_at nested_mathfield 0 = Some nested_leaf
   \<and> parent nested_leaf = Some nested_inner
   \<and> map parseEntry (htmlData_entries nested_inner)
       = [Some (''k'', Some ''inner''), Some (''y'', Some ''2'')]
   \<and> data (the (fst (getElementInfo (\<lambda>a. []) (Some nested_mathfield) 0)))
       = Some [''k'' \<mapsto> Some ''outer'', ''y'' \<mapsto> Some ''2'', ''z'' \<mapsto> None]"
proof -
  have a: "model_at nested_mathfield 0 = Some nested_leaf"
    by (simp add: model_at_def nested_mathfield_def)
  have p: "parent nested_leaf = Some nested_inner"
    by (simp add: nested_leaf_def)
  have e: "map parseEntry (htmlData_entries nested_inner)
      = [Some (''k'', Some ''inner''), Some (''y'', Some ''2'')]"
    by code_simp
  have c: "chain_pairs (ancestors (Some nested_leaf))
      = [(''k'', Some ''inner''), (''y'', Some ''2''), (''k'', Some ''outer''), (''z'', None)]"
    by code_simp
  obtain info mf' where
    g: "getElementInfo (\<lambda>a. []) (Some nested_mathfield) 0 = (Some info, Some mf')"
    and d: "data info = assignData None (chain_pairs (ancestors (Some nested_leaf)))"
    using data_getElementInfo [OF a] by blast
  have "data info = Some [''k'' \<mapsto> Some ''outer'', ''y'' \<mapsto> Some ''2'', ''z'' \<mapsto> None]"
    unfolding d c by (auto simp: assignData_def stored_pairs_def fun_eq_iff)
  then show ?thesis
    using a p e g by simp
qed

end
